theory Spec2Isabelle
  imports Complex_Main
begin

section \<open>The BookReader component as a transition system\<close>

text \<open>
  The component \<open>BookReader\<close> keeps React state (\<open>useState\<close>), mutable references
  (\<open>useRef\<close>), and talks to three asynchronous collaborators: the speech synthesis
  call, the audio decoder and the Web Audio output (source nodes, interval timers).

  The embedding is a state record holding the React state, the references and the part
  of the browser the component owns: the source nodes it created, the interval timers
  it set, and the asynchronous functions that are suspended at an \<open>await\<close>.
  Every handler runs from one suspension point to the next without interruption (the
  page is single threaded), and React commits the state updates of a handler before
  the next event is dispatched; so a handler called from an event or an effect reads
  the latest state, while the code after an \<open>await\<close> goes on with the values its
  closure captured when the function was called. Updater functions
  (\<open>setCurrentPage(p => p + 1)\<close>) and references read the latest value.

  Not part of the model: font size, volume, rendering, unmounting.
\<close>

subsection \<open>Strings\<close>

text \<open>
  A page text is a JavaScript string: a sequence of UTF-16 code units. \<open>trim\<close> and the
  class \<open>\s\<close> of a regular expression without the \<open>u\<close> flag work on code units and
  share one set of white space, the WhiteSpace and LineTerminator code points of
  ECMAScript: TAB, LF, VT, FF, CR, SPACE, U+00A0, U+1680, U+2000 to U+200A, U+2028,
  U+2029, U+202F, U+205F, U+3000 and U+FEFF. All of them are single code units.
  Audio payloads are base64 text and are kept as \<open>string\<close>; only whether a payload is
  empty matters to the component.
\<close>

type_synonym js_string = "nat list"

definition is_ws :: "nat \<Rightarrow> bool" where
  "is_ws c = (c = 0x09 \<or> c = 0x0A \<or> c = 0x0B \<or> c = 0x0C \<or> c = 0x0D \<or> c = 0x20
              \<or> c = 0xA0 \<or> c = 0x1680 \<or> (0x2000 \<le> c \<and> c \<le> 0x200A)
              \<or> c = 0x2028 \<or> c = 0x2029 \<or> c = 0x202F \<or> c = 0x205F
              \<or> c = 0x3000 \<or> c = 0xFEFF)"

text \<open>The code units of a text written in ASCII.\<close>

definition js :: "string \<Rightarrow> js_string" where
  "js t = map of_char t"

text \<open>\<open>text.trim()\<close>\<close>

definition js_trim :: "js_string \<Rightarrow> js_string" where
  "js_trim t = rev (dropWhile is_ws (rev (dropWhile is_ws t)))"

text \<open>\<open>text.match(/\S+/g) || []\<close>: the maximal runs of characters that are not white
  space; the first argument is the run being read.\<close>

fun nonspace_matches :: "js_string \<Rightarrow> js_string \<Rightarrow> js_string list" where
  "nonspace_matches w [] = (if w = [] then [] else [w])"
| "nonspace_matches w (c # cs) =
     (if is_ws c then (if w = [] then [] else [w]) @ nonspace_matches [] cs
      else nonspace_matches (w @ [c]) cs)"

text \<open>\<open>book.pageTexts[i]\<close>: \<open>undefined\<close> (\<open>None\<close>) out of range.\<close>

definition page_text :: "js_string list \<Rightarrow> int \<Rightarrow> js_string option" where
  "page_text pts i = (if 0 \<le> i \<and> i < int (length pts) then Some (pts ! nat i) else None)"

subsection \<open>Data\<close>

datatype VoiceOption = MALE | FEMALE

datatype synth_error = NoAudioData | ApiFailure

text \<open>The values a \<open>playCurrentPage\<close> closure captured at the render it belongs to.\<close>

record play_closure =
  cl_page :: int
  cl_voice :: VoiceOption
  cl_autoPlay :: bool
  cl_cache :: "int \<Rightarrow> string option"

text \<open>An \<open>AudioBufferSourceNode\<close>. The handler \<open>onended\<close> is the closure of lines
  121-127; it reads the captured \<open>autoPlay\<close> and \<open>currentPage\<close>.\<close>

record source_node =
  src_onended :: "(bool \<times> int) option"
  src_playing :: bool
  src_connected :: bool
  src_ended :: bool

text \<open>An interval timer made by \<open>window.setInterval\<close>; its callback captured
  \<open>totalWords\<close>.\<close>

record timer =
  tm_words :: nat
  tm_interval :: real
  tm_active :: bool

text \<open>Asynchronous functions suspended at an \<open>await\<close>: \<open>playCurrentPage\<close> at line 102
  or at line 116, \<open>preloadPage\<close> at line 77.\<close>

datatype task =
    PlayAwaitSynth play_closure
  | PlayAwaitDecode play_closure nat
  | PreloadAwaitSynth int
  | Done

record reader =
  currentPage :: int
  voice :: VoiceOption
  isPlaying :: bool
  isGenerating :: bool
  highlightedWordIndex :: int
  audioCache :: "int \<Rightarrow> string option"
  autoPlay :: bool
  audioSourceRef :: "nat option"
  wordHighlightIntervalRef :: "nat option"
  preloadingPageRef :: "int option"
  isInitialMountRef :: bool
  sources :: "source_node list"
  timers :: "timer list"
  tasks :: "task list"
  synthCalls :: "(int \<times> js_string \<times> VoiceOption) list"
  decodeCalls :: "string list"
  completions :: "nat list"
  alerts :: nat

text \<open>
  \<open>sources\<close>, \<open>timers\<close> and \<open>tasks\<close> grow at the end, so an index names one object for
  ever; the references hold indices. \<open>synthCalls\<close> lists the requests sent to the
  synthesis service, each with the page it was made for, \<open>decodeCalls\<close> the payloads
  given to the decoder, \<open>completions\<close> the source nodes whose \<open>onended\<close> handler ran,
  \<open>alerts\<close> counts the calls of \<open>alert\<close>.
\<close>

datatype event =
    PlayPause
  | NextPage
  | PrevPage
  | SetVoice VoiceOption
  | ToggleAutoPlay
  | SynthResponse nat "string option"
  | DecodeDone nat real
  | DecodeFail nat
  | SourceEnded nat
  | TimerTick nat

subsection \<open>The synthesis wrapper\<close>

text \<open>\<open>generateSpeech\<close> up to its \<open>await\<close>: on blank text it returns the empty string
  and sends nothing (\<open>Some []\<close>); otherwise it sends a request (\<open>None\<close>: the caller
  waits).\<close>

definition generateSpeech :: "int \<Rightarrow> js_string \<Rightarrow> VoiceOption \<Rightarrow> reader \<Rightarrow> string option \<times> reader" where
  "generateSpeech pg t v s =
     (if js_trim t = [] then (Some [], s)
      else (None, s\<lparr>synthCalls := synthCalls s @ [(pg, t, v)]\<rparr>))"

text \<open>\<open>generateSpeech\<close> after its \<open>await\<close>: the response carries
  \<open>candidates?.[0]?.content?.parts?.[0]?.inlineData?.data\<close> (\<open>Some d\<close>), or the call
  threw (\<open>None\<close>).\<close>

definition generateSpeech_result :: "string option \<Rightarrow> synth_error + string" where
  "generateSpeech_result r =
     (case r of
        None \<Rightarrow> Inl ApiFailure
      | Some d \<Rightarrow> if d \<noteq> [] then Inr d else Inl NoAudioData)"

subsection \<open>Handlers\<close>

definition map_at :: "nat \<Rightarrow> ('a \<Rightarrow> 'a) \<Rightarrow> 'a list \<Rightarrow> 'a list" where
  "map_at n f xs = (if n < length xs then xs[n := f (xs ! n)] else xs)"

definition clearInterval :: "nat \<Rightarrow> timer list \<Rightarrow> timer list" where
  "clearInterval t ts = map_at t (\<lambda>x. x\<lparr>tm_active := False\<rparr>) ts"

definition stop_source :: "source_node \<Rightarrow> source_node" where
  "stop_source x = x\<lparr>src_onended := None, src_playing := False, src_connected := False\<rparr>"

definition stopPlayback :: "reader \<Rightarrow> reader" where
  "stopPlayback s =
     (let s1 = (case audioSourceRef s of
                  None \<Rightarrow> s
                | Some n \<Rightarrow> s\<lparr>sources := map_at n stop_source (sources s),
                              audioSourceRef := None\<rparr>);
          s2 = (case wordHighlightIntervalRef s1 of
                  None \<Rightarrow> s1
                | Some t \<Rightarrow> s1\<lparr>timers := clearInterval t (timers s1),
                               wordHighlightIntervalRef := None\<rparr>)
      in s2\<lparr>isPlaying := False, highlightedWordIndex := - 1\<rparr>)"

text \<open>The effect of lines 63-66, run when \<open>voice\<close> changed.\<close>

definition voice_effect :: "reader \<Rightarrow> reader" where
  "voice_effect s = (stopPlayback s)\<lparr>audioCache := Map.empty\<rparr>"

text \<open>\<open>preloadPage\<close> after its \<open>await\<close> (lines 78-87).\<close>

definition preload_after_synth :: "int \<Rightarrow> synth_error + string \<Rightarrow> reader \<Rightarrow> reader" where
  "preload_after_synth pageIndex res s =
     (let s1 = (case res of
                  Inr audioData \<Rightarrow>
                    if audioData \<noteq> [] then s\<lparr>audioCache := (audioCache s)(pageIndex \<mapsto> audioData)\<rparr>
                    else s
                | Inl e \<Rightarrow> s)
      in if preloadingPageRef s1 = Some pageIndex then s1\<lparr>preloadingPageRef := None\<rparr> else s1)"

text \<open>\<open>preloadPage\<close> (lines 68-77), with the \<open>audioCache\<close> and \<open>voice\<close> of its closure.\<close>

definition preloadPage :: "js_string list \<Rightarrow> (int \<Rightarrow> string option) \<Rightarrow> VoiceOption \<Rightarrow> int \<Rightarrow> reader \<Rightarrow> reader" where
  "preloadPage pts cache v pageIndex s =
     (if pageIndex \<ge> int (length pts) \<or> cache pageIndex \<noteq> None
          \<or> preloadingPageRef s = Some pageIndex then s
      else case page_text pts pageIndex of
             None \<Rightarrow> s
           | Some pageText \<Rightarrow>
               if js_trim pageText = [] then s
               else let s1 = s\<lparr>preloadingPageRef := Some pageIndex\<rparr>
                    in case generateSpeech pageIndex pageText v s1 of
                         (Some audioData, s2) \<Rightarrow> preload_after_synth pageIndex (Inr audioData) s2
                       | (None, s2) \<Rightarrow> s2\<lparr>tasks := tasks s2 @ [PreloadAwaitSynth pageIndex]\<rparr>)"

text \<open>The \<open>catch\<close> and \<open>finally\<close> of \<open>playCurrentPage\<close> (lines 147-152).\<close>

definition play_failed :: "reader \<Rightarrow> reader" where
  "play_failed s = s\<lparr>alerts := alerts s + 1, isGenerating := False\<rparr>"

text \<open>\<open>playCurrentPage\<close> after \<open>decodeAudioData\<close> returned a buffer of \<open>D\<close> milliseconds
  (lines 118-145, then \<open>finally\<close>).\<close>

definition play_after_decode :: "js_string list \<Rightarrow> play_closure \<Rightarrow> nat \<Rightarrow> real \<Rightarrow> reader \<Rightarrow> reader" where
  "play_after_decode pts cl totalWords D s =
     (let source = \<lparr>src_onended = Some (cl_autoPlay cl, cl_page cl), src_playing = True,
                    src_connected = True, src_ended = False\<rparr>;
          s1 = s\<lparr>sources := sources s @ [source], audioSourceRef := Some (length (sources s)),
                 isPlaying := True\<rparr>;
          wordDuration = D / real totalWords;
          s2 = s1\<lparr>highlightedWordIndex := 0,
                  timers := timers s1 @ [\<lparr>tm_words = totalWords, tm_interval = wordDuration,
                                          tm_active = True\<rparr>],
                  wordHighlightIntervalRef := Some (length (timers s1))\<rparr>;
          s3 = preloadPage pts (cl_cache cl) (cl_voice cl) (cl_page cl + 1) s2
      in s3\<lparr>isGenerating := False\<rparr>)"

text \<open>\<open>playCurrentPage\<close> from line 108 to the \<open>await\<close> of line 116; \<open>audioData\<close> is
  \<open>None\<close> for \<open>undefined\<close>. The audio context and the gain node exist from the mount
  on. \<open>pageText.match\<close> on an \<open>undefined\<close> page text throws.\<close>

definition play_with_audio :: "js_string list \<Rightarrow> play_closure \<Rightarrow> string option \<Rightarrow> reader \<Rightarrow> reader" where
  "play_with_audio pts cl audioData s =
     (case audioData of
        None \<Rightarrow> s\<lparr>isGenerating := False\<rparr>
      | Some d \<Rightarrow>
          if d = [] then s\<lparr>isGenerating := False\<rparr>
          else case page_text pts (cl_page cl) of
                 None \<Rightarrow> play_failed s
               | Some pageText \<Rightarrow>
                   let totalWords = length (nonspace_matches [] pageText)
                   in if totalWords = 0 then s\<lparr>isGenerating := False\<rparr>
                      else s\<lparr>decodeCalls := decodeCalls s @ [d],
                             tasks := tasks s @ [PlayAwaitDecode cl totalWords]\<rparr>)"

text \<open>\<open>playCurrentPage\<close> after \<open>generateSpeech\<close> came back (lines 102-106).\<close>

definition play_after_synth :: "js_string list \<Rightarrow> play_closure \<Rightarrow> synth_error + string \<Rightarrow> reader \<Rightarrow> reader" where
  "play_after_synth pts cl res s =
     (case res of
        Inl e \<Rightarrow> play_failed s
      | Inr audioData \<Rightarrow>
          let s1 = (if audioData \<noteq> [] then s\<lparr>audioCache := (audioCache s)(cl_page cl \<mapsto> audioData)\<rparr>
                    else s)
          in play_with_audio pts cl (Some audioData) s1)"

text \<open>The condition \<open>!audioData && pageText?.trim()\<close> of line 101: the text to send
  when it holds.\<close>

definition text_to_fetch :: "string option \<Rightarrow> js_string option \<Rightarrow> js_string option" where
  "text_to_fetch audioData pageText =
     (if audioData = None \<or> audioData = Some [] then
        (case pageText of
           None \<Rightarrow> None
         | Some t \<Rightarrow> if js_trim t \<noteq> [] then Some t else None)
      else None)"

text \<open>\<open>playCurrentPage\<close> (lines 90-102).\<close>

definition playCurrentPage :: "js_string list \<Rightarrow> reader \<Rightarrow> reader" where
  "playCurrentPage pts s =
     (if isGenerating s then s
      else let cl = \<lparr>cl_page = currentPage s, cl_voice = voice s, cl_autoPlay = autoPlay s,
                     cl_cache = audioCache s\<rparr>;
               s1 = stopPlayback s;
               s2 = s1\<lparr>isGenerating := True, highlightedWordIndex := - 1\<rparr>;
               audioData = cl_cache cl (cl_page cl);
               pageText = page_text pts (cl_page cl)
           in case text_to_fetch audioData pageText of
                Some t \<Rightarrow>
                  (case generateSpeech (cl_page cl) t (cl_voice cl) s2 of
                     (Some d, s3) \<Rightarrow> play_after_synth pts cl (Inr d) s3
                   | (None, s3) \<Rightarrow> s3\<lparr>tasks := tasks s3 @ [PlayAwaitSynth cl]\<rparr>)
              | None \<Rightarrow> play_with_audio pts cl audioData s2)"

text \<open>The effect of lines 155-169, run when \<open>currentPage\<close> or \<open>autoPlay\<close> changed.\<close>

definition page_effect :: "js_string list \<Rightarrow> reader \<Rightarrow> reader" where
  "page_effect pts s =
     (if isInitialMountRef s
      then preloadPage pts (audioCache s) (voice s) 1 (s\<lparr>isInitialMountRef := False\<rparr>)
      else let s1 = stopPlayback s
           in if autoPlay s1 then playCurrentPage pts s1
              else preloadPage pts (audioCache s1) (voice s1) (currentPage s1 + 1) s1)"

definition handlePlayPause :: "js_string list \<Rightarrow> reader \<Rightarrow> reader" where
  "handlePlayPause pts s = (if isPlaying s then stopPlayback s else playCurrentPage pts s)"

definition goToNextPage :: "js_string list \<Rightarrow> reader \<Rightarrow> reader" where
  "goToNextPage pts s =
     (if currentPage s < int (length pts) - 1
      then page_effect pts (s\<lparr>currentPage := currentPage s + 1\<rparr>) else s)"

definition goToPrevPage :: "js_string list \<Rightarrow> reader \<Rightarrow> reader" where
  "goToPrevPage pts s =
     (if currentPage s > 0
      then page_effect pts (s\<lparr>currentPage := currentPage s - 1\<rparr>) else s)"

text \<open>\<open>setVoice(v)\<close>: React does nothing when the state keeps its value.\<close>

definition setVoice :: "VoiceOption \<Rightarrow> reader \<Rightarrow> reader" where
  "setVoice v s = (if v = voice s then s else voice_effect (s\<lparr>voice := v\<rparr>))"

definition toggleAutoPlay :: "js_string list \<Rightarrow> reader \<Rightarrow> reader" where
  "toggleAutoPlay pts s = page_effect pts (s\<lparr>autoPlay := \<not> autoPlay s\<rparr>)"

text \<open>The handler \<open>source.onended\<close> (lines 121-127) with its captured \<open>autoPlay\<close> and
  \<open>currentPage\<close>; the page effect runs when it changed \<open>currentPage\<close>.\<close>

definition source_onended :: "js_string list \<Rightarrow> bool \<times> int \<Rightarrow> reader \<Rightarrow> reader" where
  "source_onended pts h s =
     (let s1 = s\<lparr>isPlaying := False\<rparr>;
          s2 = (case wordHighlightIntervalRef s1 of
                  None \<Rightarrow> s1
                | Some t \<Rightarrow> s1\<lparr>timers := clearInterval t (timers s1)\<rparr>)
      in if fst h \<and> snd h < int (length pts) - 1
         then page_effect pts (s2\<lparr>currentPage := currentPage s2 + 1\<rparr>) else s2)"

text \<open>The callback of the interval timer (lines 134-143) with its captured
  \<open>totalWords\<close>.\<close>

definition interval_callback :: "nat \<Rightarrow> reader \<Rightarrow> reader" where
  "interval_callback totalWords s =
     (let prevIndex = highlightedWordIndex s;
          nextIndex = prevIndex + 1
      in if nextIndex \<ge> int totalWords
         then (case wordHighlightIntervalRef s of
                 None \<Rightarrow> s
               | Some t \<Rightarrow> s\<lparr>timers := clearInterval t (timers s)\<rparr>)
         else s\<lparr>highlightedWordIndex := nextIndex\<rparr>)"

subsection \<open>Events\<close>

text \<open>
  An event that is not enabled (a task that is not waiting for it, a source node whose
  \<open>ended\<close> event was already dispatched, a cleared timer) leaves the state as it is.
  The browser dispatches \<open>ended\<close> once to a source node, when its buffer has been
  played or after \<open>stop()\<close>, to the handler the node has at that moment.
\<close>

definition finish_task :: "nat \<Rightarrow> reader \<Rightarrow> reader" where
  "finish_task i s = s\<lparr>tasks := (tasks s)[i := Done]\<rparr>"

definition synth_response :: "js_string list \<Rightarrow> nat \<Rightarrow> string option \<Rightarrow> reader \<Rightarrow> reader" where
  "synth_response pts i r s =
     (if i < length (tasks s) then
        (case tasks s ! i of
           PlayAwaitSynth cl \<Rightarrow> play_after_synth pts cl (generateSpeech_result r) (finish_task i s)
         | PreloadAwaitSynth pg \<Rightarrow> preload_after_synth pg (generateSpeech_result r) (finish_task i s)
         | PlayAwaitDecode cl w \<Rightarrow> s
         | Done \<Rightarrow> s)
      else s)"

definition decode_done :: "js_string list \<Rightarrow> nat \<Rightarrow> real \<Rightarrow> reader \<Rightarrow> reader" where
  "decode_done pts i D s =
     (if i < length (tasks s) then
        (case tasks s ! i of
           PlayAwaitDecode cl w \<Rightarrow> play_after_decode pts cl w D (finish_task i s)
         | PlayAwaitSynth cl \<Rightarrow> s
         | PreloadAwaitSynth pg \<Rightarrow> s
         | Done \<Rightarrow> s)
      else s)"

definition decode_fail :: "nat \<Rightarrow> reader \<Rightarrow> reader" where
  "decode_fail i s =
     (if i < length (tasks s) then
        (case tasks s ! i of
           PlayAwaitDecode cl w \<Rightarrow> play_failed (finish_task i s)
         | PlayAwaitSynth cl \<Rightarrow> s
         | PreloadAwaitSynth pg \<Rightarrow> s
         | Done \<Rightarrow> s)
      else s)"

definition source_ended :: "js_string list \<Rightarrow> nat \<Rightarrow> reader \<Rightarrow> reader" where
  "source_ended pts n s =
     (if n < length (sources s) \<and> \<not> src_ended (sources s ! n) then
        (let h = src_onended (sources s ! n);
             s1 = s\<lparr>sources := (sources s)[n := (sources s ! n)\<lparr>src_playing := False,
                                                                 src_ended := True\<rparr>]\<rparr>
         in case h of
              None \<Rightarrow> s1
            | Some handler \<Rightarrow> source_onended pts handler (s1\<lparr>completions := completions s1 @ [n]\<rparr>))
      else s)"

definition timer_tick :: "nat \<Rightarrow> reader \<Rightarrow> reader" where
  "timer_tick t s =
     (if t < length (timers s) \<and> tm_active (timers s ! t)
      then interval_callback (tm_words (timers s ! t)) s else s)"

fun step :: "js_string list \<Rightarrow> event \<Rightarrow> reader \<Rightarrow> reader" where
  "step pts PlayPause s = handlePlayPause pts s"
| "step pts NextPage s = goToNextPage pts s"
| "step pts PrevPage s = goToPrevPage pts s"
| "step pts (SetVoice v) s = setVoice v s"
| "step pts ToggleAutoPlay s = toggleAutoPlay pts s"
| "step pts (SynthResponse i r) s = synth_response pts i r s"
| "step pts (DecodeDone i D) s = decode_done pts i D s"
| "step pts (DecodeFail i) s = decode_fail i s"
| "step pts (SourceEnded n) s = source_ended pts n s"
| "step pts (TimerTick t) s = timer_tick t s"

fun run :: "js_string list \<Rightarrow> event list \<Rightarrow> reader \<Rightarrow> reader" where
  "run pts [] s = s"
| "run pts (e # es) s = run pts es (step pts e s)"

text \<open>The state after the first render and its effects: the voice effect (lines 63-66)
  and the page effect, which on the first mount only preloads page 1.\<close>

definition unmounted :: reader where
  "unmounted =
     \<lparr>currentPage = 0, voice = FEMALE, isPlaying = False, isGenerating = False,
      highlightedWordIndex = - 1, audioCache = Map.empty, autoPlay = False,
      audioSourceRef = None, wordHighlightIntervalRef = None, preloadingPageRef = None,
      isInitialMountRef = True, sources = [], timers = [], tasks = [], synthCalls = [],
      decodeCalls = [], completions = [], alerts = 0\<rparr>"

definition mount :: "js_string list \<Rightarrow> reader" where
  "mount pts = page_effect pts (voice_effect unmounted)"

subsection \<open>Invariants and relations between states\<close>

definition is_play_task :: "task \<Rightarrow> bool" where
  "is_play_task t =
     (case t of
        PlayAwaitSynth cl \<Rightarrow> True
      | PlayAwaitDecode cl w \<Rightarrow> True
      | PreloadAwaitSynth pg \<Rightarrow> False
      | Done \<Rightarrow> False)"

definition is_done :: "task \<Rightarrow> bool" where
  "is_done t = (case t of Done \<Rightarrow> True | PlayAwaitSynth cl \<Rightarrow> False
                | PlayAwaitDecode cl w \<Rightarrow> False | PreloadAwaitSynth pg \<Rightarrow> False)"

text \<open>A source node after \<open>stopPlayback\<close>: handler removed, stopped, disconnected.\<close>

definition torn_down :: "source_node \<Rightarrow> bool" where
  "torn_down x = (src_onended x = None \<and> \<not> src_playing x \<and> \<not> src_connected x)"

text \<open>The references and the objects of the browser agree: every source node other
  than the one in \<open>audioSourceRef\<close> is torn down, every timer other than the one in
  \<open>wordHighlightIntervalRef\<close> is cleared, and with no source node in the reference
  the component shows the stopped state.\<close>

definition nodes_inv :: "reader \<Rightarrow> bool" where
  "nodes_inv s =
     ((\<forall>n. audioSourceRef s = Some n \<longrightarrow> n < length (sources s)) \<and>
      (audioSourceRef s = None \<longrightarrow>
         \<not> isPlaying s \<and> highlightedWordIndex s = - 1 \<and> wordHighlightIntervalRef s = None) \<and>
      (\<forall>n. n < length (sources s) \<longrightarrow> audioSourceRef s \<noteq> Some n \<longrightarrow>
         torn_down (sources s ! n)) \<and>
      (\<forall>t. wordHighlightIntervalRef s = Some t \<longrightarrow> t < length (timers s)) \<and>
      (\<forall>t. t < length (timers s) \<longrightarrow> wordHighlightIntervalRef s \<noteq> Some t \<longrightarrow>
         \<not> tm_active (timers s ! t)))"

text \<open>\<open>isGenerating\<close> holds exactly while one \<open>playCurrentPage\<close> is suspended, and
  then no source node is in the reference.\<close>

definition gen_inv :: "reader \<Rightarrow> bool" where
  "gen_inv s =
     (length (filter is_play_task (tasks s)) = (if isGenerating s then 1 else 0) \<and>
      (isGenerating s \<longrightarrow> audioSourceRef s = None))"

definition session_inv :: "reader \<Rightarrow> bool" where
  "session_inv s = (nodes_inv s \<and> gen_inv s)"

text \<open>The state of \<open>playCurrentPage\<close> between its suspension points.\<close>

definition mid_play :: "reader \<Rightarrow> bool" where
  "mid_play s =
     (nodes_inv s \<and> isGenerating s \<and> filter is_play_task (tasks s) = [] \<and>
      audioSourceRef s = None)"

text \<open>What a later state keeps of an earlier one: cache entries stay or are replaced
  by non-empty payloads, the decoder is given non-empty payloads only, source nodes
  stay in place, a removed handler stays removed and does not run.\<close>

definition cache_grows :: "reader \<Rightarrow> reader \<Rightarrow> bool" where
  "cache_grows s s' =
     (\<forall>p. audioCache s' p = audioCache s p \<or> (\<exists>d. d \<noteq> [] \<and> audioCache s' p = Some d))"

definition decode_grows :: "reader \<Rightarrow> reader \<Rightarrow> bool" where
  "decode_grows s s' = (\<exists>ds. decodeCalls s' = decodeCalls s @ ds \<and> [] \<notin> set ds)"

definition detached :: "nat \<Rightarrow> reader \<Rightarrow> bool" where
  "detached n s = (n < length (sources s) \<and> src_onended (sources s ! n) = None)"

definition handlers_kept :: "reader \<Rightarrow> reader \<Rightarrow> bool" where
  "handlers_kept s s' =
     ((\<forall>n. detached n s \<longrightarrow> detached n s') \<and>
      (\<exists>cs. completions s' = completions s @ cs \<and> (\<forall>n. n \<in> set cs \<longrightarrow> \<not> detached n s)))"

definition later :: "reader \<Rightarrow> reader \<Rightarrow> bool" where
  "later s s' = (cache_grows s s' \<and> decode_grows s s' \<and> handlers_kept s s')"

definition cache_ok :: "reader \<Rightarrow> bool" where
  "cache_ok s = (\<forall>p d. audioCache s p = Some d \<longrightarrow> d \<noteq> [])"

definition is_SetVoice :: "event \<Rightarrow> bool" where
  "is_SetVoice e = (case e of SetVoice v \<Rightarrow> True | _ \<Rightarrow> False)"

text \<open>Events of the browser and of the collaborators, as opposed to the user's.\<close>

definition is_internal :: "event \<Rightarrow> bool" where
  "is_internal e =
     (case e of
        SynthResponse i r \<Rightarrow> True
      | DecodeDone i D \<Rightarrow> True
      | DecodeFail i \<Rightarrow> True
      | SourceEnded n \<Rightarrow> True
      | TimerTick t \<Rightarrow> True
      | _ \<Rightarrow> False)"


text \<open>The document of the end-to-end scenario.\<close>

definition three_pages :: "js_string list" where
  "three_pages = [js ''Hello world'', [], js ''Third page here'']"

section \<open>Evaluation\<close>

lemmas ops = mount_def unmounted_def page_effect_def voice_effect_def stopPlayback_def preloadPage_def
  page_text_def js_trim_def is_ws_def js_def generateSpeech_def preload_after_synth_def
  toggleAutoPlay_def playCurrentPage_def text_to_fetch_def play_with_audio_def play_after_synth_def
  play_after_decode_def play_failed_def handlePlayPause_def goToNextPage_def goToPrevPage_def setVoice_def
  source_onended_def interval_callback_def finish_task_def synth_response_def decode_done_def decode_fail_def
  source_ended_def timer_tick_def map_at_def clearInterval_def stop_source_def generateSpeech_result_def Let_def


section \<open>Lists\<close>

lemma filter_update_drop:
  "i < length xs \<Longrightarrow> P (xs ! i) \<Longrightarrow> \<not> P y \<Longrightarrow>
   Suc (length (filter P (xs[i := y]))) = length (filter P xs)"
  by (induction xs arbitrary: i) (auto split: nat.splits)

lemma filter_update_same:
  "\<not> P (xs ! i) \<Longrightarrow> \<not> P y \<Longrightarrow> filter P (xs[i := y]) = filter P xs"
  by (induction xs arbitrary: i) (auto split: nat.splits)

section \<open>The session invariant\<close>

lemma stopPlayback_session: "session_inv s \<Longrightarrow> session_inv (stopPlayback s)"
  by (auto simp: session_inv_def nodes_inv_def gen_inv_def stopPlayback_def Let_def map_at_def
      clearInterval_def stop_source_def torn_down_def nth_list_update split: option.splits)

text \<open>\<open>preloadPage\<close> touches only the cache, the preload reference, the call log and
  the tasks.\<close>

lemma preload_after_synth_frame [simp]:
  "sources (preload_after_synth pg r s) = sources s"
  "timers (preload_after_synth pg r s) = timers s"
  "tasks (preload_after_synth pg r s) = tasks s"
  "audioSourceRef (preload_after_synth pg r s) = audioSourceRef s"
  "wordHighlightIntervalRef (preload_after_synth pg r s) = wordHighlightIntervalRef s"
  "isPlaying (preload_after_synth pg r s) = isPlaying s"
  "isGenerating (preload_after_synth pg r s) = isGenerating s"
  "highlightedWordIndex (preload_after_synth pg r s) = highlightedWordIndex s"
  "currentPage (preload_after_synth pg r s) = currentPage s"
  "voice (preload_after_synth pg r s) = voice s"
  "autoPlay (preload_after_synth pg r s) = autoPlay s"
  "decodeCalls (preload_after_synth pg r s) = decodeCalls s"
  "completions (preload_after_synth pg r s) = completions s"
  "synthCalls (preload_after_synth pg r s) = synthCalls s"
  by (simp_all add: preload_after_synth_def Let_def split: sum.splits)

lemma preloadPage_frame [simp]:
  "sources (preloadPage pts c v pg s) = sources s"
  "timers (preloadPage pts c v pg s) = timers s"
  "audioSourceRef (preloadPage pts c v pg s) = audioSourceRef s"
  "wordHighlightIntervalRef (preloadPage pts c v pg s) = wordHighlightIntervalRef s"
  "isPlaying (preloadPage pts c v pg s) = isPlaying s"
  "isGenerating (preloadPage pts c v pg s) = isGenerating s"
  "highlightedWordIndex (preloadPage pts c v pg s) = highlightedWordIndex s"
  "currentPage (preloadPage pts c v pg s) = currentPage s"
  "voice (preloadPage pts c v pg s) = voice s"
  "autoPlay (preloadPage pts c v pg s) = autoPlay s"
  "decodeCalls (preloadPage pts c v pg s) = decodeCalls s"
  "completions (preloadPage pts c v pg s) = completions s"
  "filter is_play_task (tasks (preloadPage pts c v pg s)) = filter is_play_task (tasks s)"
  by (simp_all add: preloadPage_def generateSpeech_def Let_def is_play_task_def split: option.splits)

lemma preloadPage_nodes [simp]: "nodes_inv (preloadPage pts c v pg s) = nodes_inv s"
  by (simp add: nodes_inv_def)

lemma preloadPage_gen [simp]: "gen_inv (preloadPage pts c v pg s) = gen_inv s"
  by (simp add: gen_inv_def)

lemma preload_after_synth_session [simp]:
  "session_inv (preload_after_synth pg r s) = session_inv s"
  by (simp add: session_inv_def nodes_inv_def gen_inv_def)

lemma play_failed_session: "mid_play s \<Longrightarrow> session_inv (play_failed s)"
  by (auto simp: mid_play_def session_inv_def nodes_inv_def gen_inv_def play_failed_def)

lemma play_after_decode_session: "mid_play s \<Longrightarrow> session_inv (play_after_decode pts cl w D s)"
  by (auto simp: mid_play_def session_inv_def nodes_inv_def gen_inv_def play_after_decode_def Let_def
       nth_append)

lemma play_with_audio_session: "mid_play s \<Longrightarrow> session_inv (play_with_audio pts cl a s)"
  by (auto simp: mid_play_def session_inv_def nodes_inv_def gen_inv_def play_with_audio_def Let_def
       play_failed_def is_play_task_def split: option.splits)

lemma play_after_synth_session: "mid_play s \<Longrightarrow> session_inv (play_after_synth pts cl r s)"
proof (cases r)
  case (Inl e)
  assume "mid_play s"
  then show ?thesis using Inl by (simp add: play_after_synth_def play_failed_session)
next
  case (Inr d)
  assume m: "mid_play s"
  then have "mid_play (s\<lparr>audioCache := (audioCache s)(cl_page cl \<mapsto> d)\<rparr>)"
    by (simp add: mid_play_def nodes_inv_def)
  with m show ?thesis using Inr
    by (simp add: play_after_synth_def Let_def play_with_audio_session)
qed

lemma playCurrentPage_session: "session_inv s \<Longrightarrow> session_inv (playCurrentPage pts s)"
proof (cases "isGenerating s")
  case True
  assume "session_inv s"
  then show ?thesis using True by (simp add: playCurrentPage_def)
next
  case False
  assume "session_inv s"
  then have i: "session_inv (stopPlayback s)" by (rule stopPlayback_session)
  have g: "isGenerating (stopPlayback s) = isGenerating s"
    by (simp add: stopPlayback_def Let_def split: option.splits)
  have r: "audioSourceRef (stopPlayback s) = None"
    by (simp add: stopPlayback_def Let_def split: option.splits)
  define s2 where "s2 = (stopPlayback s)\<lparr>isGenerating := True, highlightedWordIndex := - 1\<rparr>"
  have m: "mid_play s2"
    using i g r False
    by (auto simp: s2_def mid_play_def session_inv_def nodes_inv_def gen_inv_def)
  have m': "mid_play (s2\<lparr>synthCalls := xs\<rparr>)" for xs
    using m by (simp add: mid_play_def nodes_inv_def)
  have q: "session_inv (s2\<lparr>synthCalls := xs, tasks := tasks s2 @ [PlayAwaitSynth c]\<rparr>)" for xs c
    using m by (auto simp: mid_play_def session_inv_def nodes_inv_def gen_inv_def is_play_task_def)
  show ?thesis using False m q
    by (auto simp: playCurrentPage_def Let_def s2_def [symmetric] generateSpeech_def
        play_with_audio_session play_after_synth_session split: option.splits)
qed

lemma preloadPage_session [simp]: "session_inv (preloadPage pts c v pg s) = session_inv s"
  by (simp add: session_inv_def)

lemma page_effect_session: "session_inv s \<Longrightarrow> session_inv (page_effect pts s)"
proof (cases "isInitialMountRef s")
  case True
  assume "session_inv s"
  then have "session_inv (s\<lparr>isInitialMountRef := False\<rparr>)"
    by (simp add: session_inv_def nodes_inv_def gen_inv_def)
  then show ?thesis using True by (simp add: page_effect_def)
next
  case False
  assume "session_inv s"
  then have "session_inv (stopPlayback s)" by (rule stopPlayback_session)
  then show ?thesis using False
    by (simp add: page_effect_def Let_def playCurrentPage_session)
qed

lemma handlePlayPause_session: "session_inv s \<Longrightarrow> session_inv (handlePlayPause pts s)"
  by (simp add: handlePlayPause_def stopPlayback_session playCurrentPage_session)

lemma set_page_session: "session_inv (s\<lparr>currentPage := p\<rparr>) = session_inv s"
  by (simp add: session_inv_def nodes_inv_def gen_inv_def)

lemma set_autoPlay_session: "session_inv (s\<lparr>autoPlay := p\<rparr>) = session_inv s"
  by (simp add: session_inv_def nodes_inv_def gen_inv_def)

lemma goToNextPage_session: "session_inv s \<Longrightarrow> session_inv (goToNextPage pts s)"
  by (simp add: goToNextPage_def page_effect_session set_page_session)

lemma goToPrevPage_session: "session_inv s \<Longrightarrow> session_inv (goToPrevPage pts s)"
  by (simp add: goToPrevPage_def page_effect_session set_page_session)

lemma toggleAutoPlay_session: "session_inv s \<Longrightarrow> session_inv (toggleAutoPlay pts s)"
  by (simp add: toggleAutoPlay_def page_effect_session set_autoPlay_session)

lemma setVoice_session: "session_inv s \<Longrightarrow> session_inv (setVoice v s)"
proof -
  assume "session_inv s"
  then have "session_inv (s\<lparr>voice := v\<rparr>)"
    by (simp add: session_inv_def nodes_inv_def gen_inv_def)
  then have "session_inv (stopPlayback (s\<lparr>voice := v\<rparr>))" by (rule stopPlayback_session)
  then have "session_inv (voice_effect (s\<lparr>voice := v\<rparr>))"
    by (simp add: voice_effect_def session_inv_def nodes_inv_def gen_inv_def)
  then show ?thesis using \<open>session_inv s\<close> by (simp add: setVoice_def)
qed

lemma source_onended_session: "session_inv s \<Longrightarrow> session_inv (source_onended pts h s)"
proof -
  assume a: "session_inv s"
  define s2 where "s2 = (case wordHighlightIntervalRef s of
                  None \<Rightarrow> s\<lparr>isPlaying := False\<rparr>
                | Some t \<Rightarrow> s\<lparr>isPlaying := False, timers := clearInterval t (timers s)\<rparr>)"
  have i: "session_inv s2" using a
    by (auto simp: s2_def session_inv_def nodes_inv_def gen_inv_def clearInterval_def map_at_def
        nth_list_update split: option.splits)
  have e: "source_onended pts h s =
       (if fst h \<and> snd h < int (length pts) - 1
         then page_effect pts (s2\<lparr>currentPage := currentPage s2 + 1\<rparr>) else s2)"
    by (simp add: source_onended_def Let_def s2_def split: option.splits)
  show ?thesis using i by (simp add: e page_effect_session set_page_session)
qed

lemma interval_callback_session:
  "session_inv s \<Longrightarrow> audioSourceRef s \<noteq> None \<Longrightarrow> session_inv (interval_callback w s)"
  by (auto simp: interval_callback_def Let_def session_inv_def nodes_inv_def gen_inv_def
      clearInterval_def map_at_def nth_list_update split: option.splits)

lemma timer_tick_session: "session_inv s \<Longrightarrow> session_inv (timer_tick t s)"
proof (cases "t < length (timers s) \<and> tm_active (timers s ! t)")
  case True
  assume a: "session_inv s"
  with True have "wordHighlightIntervalRef s = Some t"
    by (auto simp: session_inv_def nodes_inv_def)
  with a have "audioSourceRef s \<noteq> None" by (auto simp: session_inv_def nodes_inv_def)
  with a True show ?thesis by (simp add: timer_tick_def interval_callback_session)
next
  case False
  assume "session_inv s"
  with False show ?thesis by (auto simp: timer_tick_def)
qed

lemma finish_play_task:
  assumes "session_inv s" "i < length (tasks s)" "is_play_task (tasks s ! i)"
  shows "mid_play (finish_task i s)"
proof -
  have "filter is_play_task (tasks s) \<noteq> []"
    using assms(2,3) by (auto simp: filter_empty_conv)
  then have g: "isGenerating s" and c: "length (filter is_play_task (tasks s)) = 1"
    using assms(1) by (auto simp: session_inv_def gen_inv_def split: if_splits)
  have "Suc (length (filter is_play_task ((tasks s)[i := Done]))) = length (filter is_play_task (tasks s))"
    using assms(2,3) by (intro filter_update_drop) (auto simp: is_play_task_def)
  with c have "filter is_play_task ((tasks s)[i := Done]) = []" by simp
  then show ?thesis using assms(1) g
    by (auto simp: mid_play_def finish_task_def session_inv_def nodes_inv_def gen_inv_def)
qed

lemma finish_other_task:
  assumes "session_inv s" "\<not> is_play_task (tasks s ! i)"
  shows "session_inv (finish_task i s)"
proof -
  have "filter is_play_task ((tasks s)[i := Done]) = filter is_play_task (tasks s)"
    using assms(2) by (intro filter_update_same) (auto simp: is_play_task_def)
  then show ?thesis using assms(1)
    by (auto simp: finish_task_def session_inv_def nodes_inv_def gen_inv_def)
qed

lemma synth_response_session: "session_inv s \<Longrightarrow> session_inv (synth_response pts i r s)"
  by (auto simp: synth_response_def play_after_synth_session finish_play_task finish_other_task
      is_play_task_def split: task.splits)

lemma decode_done_session: "session_inv s \<Longrightarrow> session_inv (decode_done pts i D s)"
  by (auto simp: decode_done_def play_after_decode_session finish_play_task
      is_play_task_def split: task.splits)

lemma decode_fail_session: "session_inv s \<Longrightarrow> session_inv (decode_fail i s)"
  by (auto simp: decode_fail_def play_failed_session finish_play_task
      is_play_task_def split: task.splits)

lemma source_ended_session: "session_inv s \<Longrightarrow> session_inv (source_ended pts n s)"
proof (cases "n < length (sources s) \<and> \<not> src_ended (sources s ! n)")
  case True
  assume a: "session_inv s"
  define s1 where "s1 = s\<lparr>sources := (sources s)[n := (sources s ! n)\<lparr>src_playing := False,
                                                                 src_ended := True\<rparr>]\<rparr>"
  have i: "session_inv s1" using a True
    by (auto simp: s1_def session_inv_def nodes_inv_def gen_inv_def torn_down_def nth_list_update)
  then have "session_inv (s1\<lparr>completions := cs\<rparr>)" for cs
    by (simp add: session_inv_def nodes_inv_def gen_inv_def)
  with i True show ?thesis
    by (auto simp: source_ended_def Let_def s1_def [symmetric] source_onended_session
        split: option.splits)
next
  case False
  assume "session_inv s"
  with False show ?thesis by (auto simp: source_ended_def)
qed

lemma step_session: "session_inv s \<Longrightarrow> session_inv (step pts e s)"
  by (cases e) (simp_all add: handlePlayPause_session goToNextPage_session goToPrevPage_session
      setVoice_session toggleAutoPlay_session synth_response_session decode_done_session
      decode_fail_session source_ended_session timer_tick_session)

lemma run_session: "session_inv s \<Longrightarrow> session_inv (run pts es s)"
  by (induction es arbitrary: s) (simp_all add: step_session)

lemma unmounted_session: "session_inv unmounted"
  by (simp add: session_inv_def nodes_inv_def gen_inv_def unmounted_def)

lemma mount_session: "session_inv (mount pts)"
proof -
  have "session_inv (stopPlayback unmounted)" by (rule stopPlayback_session [OF unmounted_session])
  then have "session_inv (voice_effect unmounted)"
    by (simp add: voice_effect_def session_inv_def nodes_inv_def gen_inv_def)
  then show ?thesis by (simp add: mount_def page_effect_session)
qed

lemma reachable_session: "session_inv (run pts es (mount pts))"
  by (rule run_session [OF mount_session])

section \<open>Later states\<close>

lemmas later_defs = later_def cache_grows_def decode_grows_def handlers_kept_def detached_def

lemma later_refl [simp]: "later s s"
  by (simp add: later_defs)

lemma cache_grows_trans: "cache_grows s s' \<Longrightarrow> cache_grows s' s'' \<Longrightarrow> cache_grows s s''"
  unfolding cache_grows_def by metis

lemma decode_grows_trans: "decode_grows s s' \<Longrightarrow> decode_grows s' s'' \<Longrightarrow> decode_grows s s''"
  unfolding decode_grows_def by (metis Un_iff append.assoc set_append)

lemma handlers_kept_trans:
  assumes "handlers_kept s s'" "handlers_kept s' s''"
  shows "handlers_kept s s''"
proof -
  from assms(1) obtain cs where 1: "completions s' = completions s @ cs"
    "\<And>n. n \<in> set cs \<Longrightarrow> \<not> detached n s" "\<And>n. detached n s \<Longrightarrow> detached n s'"
    unfolding handlers_kept_def by blast
  from assms(2) obtain cs' where 2: "completions s'' = completions s' @ cs'"
    "\<And>n. n \<in> set cs' \<Longrightarrow> \<not> detached n s'" "\<And>n. detached n s' \<Longrightarrow> detached n s''"
    unfolding handlers_kept_def by blast
  have "completions s'' = completions s @ (cs @ cs')" using 1(1) 2(1) by simp
  moreover have "\<And>n. n \<in> set (cs @ cs') \<Longrightarrow> \<not> detached n s" using 1(2,3) 2(2) by auto
  ultimately show ?thesis unfolding handlers_kept_def using 1(3) 2(3) by blast
qed

lemma later_trans: "later s s' \<Longrightarrow> later s' s'' \<Longrightarrow> later s s''"
  unfolding later_def
  using cache_grows_trans decode_grows_trans handlers_kept_trans by blast

lemma later_frame [simp]:
  "later s0 (s\<lparr>currentPage := a1\<rparr>) = later s0 s"
  "later s0 (s\<lparr>voice := a2\<rparr>) = later s0 s"
  "later s0 (s\<lparr>isPlaying := a3\<rparr>) = later s0 s"
  "later s0 (s\<lparr>isGenerating := a4\<rparr>) = later s0 s"
  "later s0 (s\<lparr>highlightedWordIndex := a5\<rparr>) = later s0 s"
  "later s0 (s\<lparr>autoPlay := a6\<rparr>) = later s0 s"
  "later s0 (s\<lparr>audioSourceRef := a7\<rparr>) = later s0 s"
  "later s0 (s\<lparr>wordHighlightIntervalRef := a8\<rparr>) = later s0 s"
  "later s0 (s\<lparr>preloadingPageRef := a9\<rparr>) = later s0 s"
  "later s0 (s\<lparr>isInitialMountRef := a10\<rparr>) = later s0 s"
  "later s0 (s\<lparr>timers := a11\<rparr>) = later s0 s"
  "later s0 (s\<lparr>tasks := a12\<rparr>) = later s0 s"
  "later s0 (s\<lparr>synthCalls := a13\<rparr>) = later s0 s"
  "later s0 (s\<lparr>alerts := a14\<rparr>) = later s0 s"
  by (simp_all add: later_defs)

lemma later_step: "later s s' \<Longrightarrow> later s0 s \<Longrightarrow> later s0 s'"
  by (rule later_trans)

lemma stopPlayback_later0: "later s (stopPlayback s)"
  by (auto simp: later_defs stopPlayback_def Let_def map_at_def stop_source_def nth_list_update
      split: option.splits)

lemma stopPlayback_later: "later s0 s \<Longrightarrow> later s0 (stopPlayback s)"
  using later_trans stopPlayback_later0 by blast

lemma cache_insert_later: "d \<noteq> [] \<Longrightarrow> later s0 s \<Longrightarrow> later s0 (s\<lparr>audioCache := (audioCache s)(p \<mapsto> d)\<rparr>)"
proof -
  assume "d \<noteq> []"
  then have "later s (s\<lparr>audioCache := (audioCache s)(p \<mapsto> d)\<rparr>)" by (simp add: later_defs)
  then show "later s0 s \<Longrightarrow> ?thesis" using later_trans by blast
qed

lemma decode_call_later: "d \<noteq> [] \<Longrightarrow> later s0 s \<Longrightarrow> later s0 (s\<lparr>decodeCalls := decodeCalls s @ [d]\<rparr>)"
proof -
  assume "d \<noteq> []"
  then have "later s (s\<lparr>decodeCalls := decodeCalls s @ [d]\<rparr>)" by (simp add: later_defs)
  then show "later s0 s \<Longrightarrow> ?thesis" using later_trans by blast
qed

lemma new_source_later: "later s0 s \<Longrightarrow> later s0 (s\<lparr>sources := sources s @ [x]\<rparr>)"
proof -
  have "later s (s\<lparr>sources := sources s @ [x]\<rparr>)" by (simp add: later_defs nth_append)
  then show "later s0 s \<Longrightarrow> ?thesis" using later_trans by blast
qed

lemma preload_after_synth_later: "later s0 s \<Longrightarrow> later s0 (preload_after_synth pg r s)"
  by (auto simp: preload_after_synth_def Let_def cache_insert_later split: sum.splits)

lemma preloadPage_later: "later s0 s \<Longrightarrow> later s0 (preloadPage pts c v pg s)"
  by (auto simp: preloadPage_def generateSpeech_def Let_def preload_after_synth_later
      split: option.splits)

lemma play_failed_later: "later s0 s \<Longrightarrow> later s0 (play_failed s)"
  by (simp add: play_failed_def)

lemma play_after_decode_later: "later s0 s \<Longrightarrow> later s0 (play_after_decode pts cl w D s)"
  by (simp add: play_after_decode_def Let_def preloadPage_later new_source_later)

lemma play_with_audio_later: "later s0 s \<Longrightarrow> later s0 (play_with_audio pts cl a s)"
  by (auto simp: play_with_audio_def Let_def play_failed_later decode_call_later
      split: option.splits)

lemma play_after_synth_later: "later s0 s \<Longrightarrow> later s0 (play_after_synth pts cl r s)"
  by (auto simp: play_after_synth_def Let_def play_failed_later play_with_audio_later
      cache_insert_later split: sum.splits)

lemma playCurrentPage_later: "later s0 s \<Longrightarrow> later s0 (playCurrentPage pts s)"
  by (auto simp: playCurrentPage_def Let_def generateSpeech_def stopPlayback_later
      play_with_audio_later play_after_synth_later split: option.splits)

lemma page_effect_later: "later s0 s \<Longrightarrow> later s0 (page_effect pts s)"
  by (simp add: page_effect_def Let_def stopPlayback_later playCurrentPage_later preloadPage_later)

lemma handlePlayPause_later: "later s0 s \<Longrightarrow> later s0 (handlePlayPause pts s)"
  by (simp add: handlePlayPause_def stopPlayback_later playCurrentPage_later)

lemma goToNextPage_later: "later s0 s \<Longrightarrow> later s0 (goToNextPage pts s)"
  by (simp add: goToNextPage_def page_effect_later)

lemma goToPrevPage_later: "later s0 s \<Longrightarrow> later s0 (goToPrevPage pts s)"
  by (simp add: goToPrevPage_def page_effect_later)

lemma toggleAutoPlay_later: "later s0 s \<Longrightarrow> later s0 (toggleAutoPlay pts s)"
  by (simp add: toggleAutoPlay_def page_effect_later)

lemma source_onended_later: "later s0 s \<Longrightarrow> later s0 (source_onended pts h s)"
  by (auto simp: source_onended_def Let_def page_effect_later split: option.splits)

lemma interval_callback_later: "later s0 s \<Longrightarrow> later s0 (interval_callback w s)"
  by (auto simp: interval_callback_def Let_def split: option.splits)

lemma timer_tick_later: "later s0 s \<Longrightarrow> later s0 (timer_tick t s)"
  by (simp add: timer_tick_def interval_callback_later)

lemma synth_response_later: "later s0 s \<Longrightarrow> later s0 (synth_response pts i r s)"
  by (auto simp: synth_response_def finish_task_def play_after_synth_later
      preload_after_synth_later split: task.splits)

lemma decode_done_later: "later s0 s \<Longrightarrow> later s0 (decode_done pts i D s)"
  by (auto simp: decode_done_def finish_task_def play_after_decode_later split: task.splits)

lemma decode_fail_later: "later s0 s \<Longrightarrow> later s0 (decode_fail i s)"
  by (auto simp: decode_fail_def finish_task_def play_failed_later split: task.splits)

lemma ended_flags_later:
  "n < length (sources s) \<Longrightarrow>
   later s (s\<lparr>sources := (sources s)[n := (sources s ! n)\<lparr>src_playing := False, src_ended := True\<rparr>]\<rparr>)"
  by (auto simp: later_defs nth_list_update)

lemma ended_completion_later:
  "n < length (sources s) \<Longrightarrow> src_onended (sources s ! n) \<noteq> None \<Longrightarrow>
   later s (s\<lparr>sources := (sources s)[n := (sources s ! n)\<lparr>src_playing := False, src_ended := True\<rparr>],
              completions := completions s @ [n]\<rparr>)"
  by (auto simp: later_defs nth_list_update)

lemma source_ended_later0: "later s (source_ended pts n s)"
  by (auto simp: source_ended_def Let_def ended_flags_later source_onended_later
      ended_completion_later split: option.splits)

lemma source_ended_later: "later s0 s \<Longrightarrow> later s0 (source_ended pts n s)"
  using later_trans source_ended_later0 by blast

lemma step_later: "\<not> is_SetVoice e \<Longrightarrow> later s (step pts e s)"
  by (cases e) (simp_all add: is_SetVoice_def handlePlayPause_later goToNextPage_later
      goToPrevPage_later toggleAutoPlay_later synth_response_later decode_done_later
      decode_fail_later source_ended_later0 timer_tick_later)

lemma setVoice_kept: "decode_grows s (setVoice v s) \<and> handlers_kept s (setVoice v s)"
proof -
  have "later (s\<lparr>voice := v\<rparr>) (stopPlayback (s\<lparr>voice := v\<rparr>))" by (rule stopPlayback_later0)
  then show ?thesis
    by (auto simp: setVoice_def voice_effect_def later_defs)
qed

section \<open>One playback session\<close>

lemma filter_le_one:
  assumes "\<And>n. n < length xs \<Longrightarrow> P (xs ! n) \<Longrightarrow> n = k"
  shows "length (filter P xs) \<le> 1"
proof -
  have "{i. i < length xs \<and> P (xs ! i)} \<subseteq> {k}" using assms by auto
  then have "card {i. i < length xs \<and> P (xs ! i)} \<le> card {k}"
    by (intro card_mono) auto
  then show ?thesis by (simp add: length_filter_conv_card)
qed

lemma playing_le_one: "nodes_inv s \<Longrightarrow> length (filter src_playing (sources s)) \<le> 1"
proof (cases "audioSourceRef s")
  case None
  assume "nodes_inv s"
  with None have "\<And>n. n < length (sources s) \<Longrightarrow> src_playing (sources s ! n) \<Longrightarrow> n = 0"
    by (auto simp: nodes_inv_def torn_down_def)
  then show ?thesis by (rule filter_le_one)
next
  case (Some k)
  assume "nodes_inv s"
  with Some have "\<And>n. n < length (sources s) \<Longrightarrow> src_playing (sources s ! n) \<Longrightarrow> n = k"
    by (auto simp: nodes_inv_def torn_down_def)
  then show ?thesis by (rule filter_le_one)
qed

lemma active_le_one: "nodes_inv s \<Longrightarrow> length (filter tm_active (timers s)) \<le> 1"
proof (cases "wordHighlightIntervalRef s")
  case None
  assume "nodes_inv s"
  with None have "\<And>n. n < length (timers s) \<Longrightarrow> tm_active (timers s ! n) \<Longrightarrow> n = 0"
    by (auto simp: nodes_inv_def)
  then show ?thesis by (rule filter_le_one)
next
  case (Some k)
  assume "nodes_inv s"
  with Some have "\<And>n. n < length (timers s) \<Longrightarrow> tm_active (timers s ! n) \<Longrightarrow> n = k"
    by (auto simp: nodes_inv_def)
  then show ?thesis by (rule filter_le_one)
qed

lemma no_ref_all_down:
  assumes "nodes_inv s" "audioSourceRef s = None"
  shows "(\<forall>x\<in>set (sources s). torn_down x) \<and> (\<forall>t\<in>set (timers s). \<not> tm_active t)"
  using assms by (auto simp: nodes_inv_def in_set_conv_nth)

lemma stopPlayback_frame [simp]:
  "audioSourceRef (stopPlayback s) = None"
  "wordHighlightIntervalRef (stopPlayback s) = None"
  "isPlaying (stopPlayback s) = False"
  "highlightedWordIndex (stopPlayback s) = - 1"
  "isGenerating (stopPlayback s) = isGenerating s"
  "currentPage (stopPlayback s) = currentPage s"
  "voice (stopPlayback s) = voice s"
  "autoPlay (stopPlayback s) = autoPlay s"
  "audioCache (stopPlayback s) = audioCache s"
  "tasks (stopPlayback s) = tasks s"
  "synthCalls (stopPlayback s) = synthCalls s"
  "decodeCalls (stopPlayback s) = decodeCalls s"
  "completions (stopPlayback s) = completions s"
  "preloadingPageRef (stopPlayback s) = preloadingPageRef s"
  "isInitialMountRef (stopPlayback s) = isInitialMountRef s"
  "alerts (stopPlayback s) = alerts s"
  "length (sources (stopPlayback s)) = length (sources s)"
  "length (timers (stopPlayback s)) = length (timers s)"
  by (simp_all add: stopPlayback_def Let_def map_at_def clearInterval_def split: option.splits)

lemma play_with_audio_frame [simp]:
  "audioSourceRef (play_with_audio pts cl a s) = audioSourceRef s"
  "wordHighlightIntervalRef (play_with_audio pts cl a s) = wordHighlightIntervalRef s"
  "isPlaying (play_with_audio pts cl a s) = isPlaying s"
  "highlightedWordIndex (play_with_audio pts cl a s) = highlightedWordIndex s"
  "currentPage (play_with_audio pts cl a s) = currentPage s"
  "voice (play_with_audio pts cl a s) = voice s"
  "autoPlay (play_with_audio pts cl a s) = autoPlay s"
  "audioCache (play_with_audio pts cl a s) = audioCache s"
  "synthCalls (play_with_audio pts cl a s) = synthCalls s"
  "completions (play_with_audio pts cl a s) = completions s"
  "sources (play_with_audio pts cl a s) = sources s"
  "timers (play_with_audio pts cl a s) = timers s"
  by (simp_all add: play_with_audio_def play_failed_def Let_def split: option.splits)

lemma play_after_synth_frame [simp]:
  "audioSourceRef (play_after_synth pts cl r s) = audioSourceRef s"
  "wordHighlightIntervalRef (play_after_synth pts cl r s) = wordHighlightIntervalRef s"
  "isPlaying (play_after_synth pts cl r s) = isPlaying s"
  "highlightedWordIndex (play_after_synth pts cl r s) = highlightedWordIndex s"
  "currentPage (play_after_synth pts cl r s) = currentPage s"
  "voice (play_after_synth pts cl r s) = voice s"
  "autoPlay (play_after_synth pts cl r s) = autoPlay s"
  "synthCalls (play_after_synth pts cl r s) = synthCalls s"
  "completions (play_after_synth pts cl r s) = completions s"
  "sources (play_after_synth pts cl r s) = sources s"
  "timers (play_after_synth pts cl r s) = timers s"
  by (simp_all add: play_after_synth_def play_failed_def Let_def split: sum.splits)

lemma playCurrentPage_ref: "\<not> isGenerating s \<Longrightarrow> audioSourceRef (playCurrentPage pts s) = None"
  by (simp add: playCurrentPage_def Let_def generateSpeech_def split: option.splits)

text \<open>
  Claim C1. In every state the component can reach, at most one source node is playing
  and at most one interval timer is set. While a \<open>playCurrentPage\<close> is under way
  (\<open>isGenerating\<close>) every source node is torn down (handler removed, stopped,
  disconnected) and every timer is cleared; and a \<open>playCurrentPage\<close> that passes its
  guard leaves every source node torn down and every timer cleared before it fetches,
  decodes or plays.
\<close>

theorem single_playback_session:
  "let s = run pts es (mount pts) in
     length (filter src_playing (sources s)) \<le> 1 \<and>
     length (filter tm_active (timers s)) \<le> 1 \<and>
     (isGenerating s \<longrightarrow>
        (\<forall>x\<in>set (sources s). torn_down x) \<and> (\<forall>t\<in>set (timers s). \<not> tm_active t)) \<and>
     (\<not> isGenerating s \<longrightarrow>
        (\<forall>x\<in>set (sources (playCurrentPage pts s)). torn_down x) \<and>
        (\<forall>t\<in>set (timers (playCurrentPage pts s)). \<not> tm_active t))"
proof -
  define s where "s = run pts es (mount pts)"
  have i: "session_inv s" unfolding s_def by (rule reachable_session)
  then have n: "nodes_inv s" by (simp add: session_inv_def)
  have 1: "length (filter src_playing (sources s)) \<le> 1" using n by (rule playing_le_one)
  have 2: "length (filter tm_active (timers s)) \<le> 1" using n by (rule active_le_one)
  have 3: "(\<forall>x\<in>set (sources s). torn_down x) \<and> (\<forall>t\<in>set (timers s). \<not> tm_active t)"
    if "isGenerating s"
  proof -
    from that i have "audioSourceRef s = None" by (simp add: session_inv_def gen_inv_def)
    with n show ?thesis by (rule no_ref_all_down)
  qed
  have 4: "(\<forall>x\<in>set (sources (playCurrentPage pts s)). torn_down x) \<and>
        (\<forall>t\<in>set (timers (playCurrentPage pts s)). \<not> tm_active t)"
    if "\<not> isGenerating s"
  proof -
    have "session_inv (playCurrentPage pts s)" using i by (rule playCurrentPage_session)
    then have "nodes_inv (playCurrentPage pts s)" by (simp add: session_inv_def)
    moreover have "audioSourceRef (playCurrentPage pts s) = None"
      using that by (rule playCurrentPage_ref)
    ultimately show ?thesis by (rule no_ref_all_down)
  qed
  show ?thesis unfolding s_def [symmetric] Let_def using 1 2 3 4 by blast
qed

theorem single_playback_session_witness:
  "map src_playing (sources (run [js ''One'', js ''Two'']
      [PlayPause, SynthResponse 1 (Some ''AAAA''), DecodeDone 2 1000, NextPage, PlayPause,
       SynthResponse 3 (Some ''BBBB''), DecodeDone 4 900] (mount [js ''One'', js ''Two'']))) = [False, True]
   \<and> length (filter src_playing (sources (run [js ''One'', js ''Two'']
      [PlayPause, SynthResponse 1 (Some ''AAAA''), DecodeDone 2 1000, NextPage, PlayPause,
       SynthResponse 3 (Some ''BBBB''), DecodeDone 4 900] (mount [js ''One'', js ''Two''])))) \<le> 1"
  using single_playback_session [of "[js ''One'', js ''Two'']" "[PlayPause, SynthResponse 1 (Some ''AAAA''), DecodeDone 2 1000, NextPage, PlayPause,
       SynthResponse 3 (Some ''BBBB''), DecodeDone 4 900]"]
  by (simp add: ops)

section \<open>Payloads\<close>

lemma step_kept: "decode_grows s (step pts e s) \<and> handlers_kept s (step pts e s)"
proof (cases e)
  case (SetVoice v)
  then show ?thesis using setVoice_kept [of s v] by simp
qed (use step_later [of e s pts] in \<open>simp_all add: is_SetVoice_def later_def\<close>)

lemma run_kept: "decode_grows s (run pts es s) \<and> handlers_kept s (run pts es s)"
proof (induction es arbitrary: s)
  case Nil
  have "later s s" by (rule later_refl)
  then show ?case unfolding later_def by simp
next
  case (Cons e es)
  show ?case
    using step_kept [of s pts e] Cons [of "step pts e s"]
    by (auto intro: decode_grows_trans handlers_kept_trans)
qed

lemma run_later: "\<forall>e\<in>set es. \<not> is_SetVoice e \<Longrightarrow> later s (run pts es s)"
proof (induction es arbitrary: s)
  case Nil
  then show ?case by simp
next
  case (Cons e es)
  then have "later s (step pts e s)" "later (step pts e s) (run pts es (step pts e s))"
    by (simp_all add: step_later)
  then show ?case using later_trans by auto
qed

lemma cache_ok_grows: "cache_ok s \<Longrightarrow> cache_grows s s' \<Longrightarrow> cache_ok s'"
  unfolding cache_ok_def cache_grows_def by (metis option.inject)

lemma step_cache_ok: "cache_ok s \<Longrightarrow> cache_ok (step pts e s)"
proof (cases "is_SetVoice e")
  case False
  assume "cache_ok s"
  then show ?thesis using step_later [OF False, of s pts] by (auto simp: later_def intro: cache_ok_grows)
next
  case True
  assume a: "cache_ok s"
  from True obtain v where "e = SetVoice v" by (cases e) (auto simp: is_SetVoice_def)
  then show ?thesis using a by (simp add: setVoice_def voice_effect_def cache_ok_def)
qed

lemma run_cache_ok: "cache_ok s \<Longrightarrow> cache_ok (run pts es s)"
  by (induction es arbitrary: s) (simp_all add: step_cache_ok)

lemma mount_cache_ok: "cache_ok (mount pts)"
proof -
  have "cache_ok (voice_effect unmounted)" by (simp add: voice_effect_def cache_ok_def)
  moreover have "later (voice_effect unmounted) (mount pts)"
    unfolding mount_def by (rule page_effect_later) simp
  ultimately show ?thesis by (auto simp: later_def intro: cache_ok_grows)
qed

lemma mount_decodeCalls: "decodeCalls (mount pts) = []"
  by (simp add: mount_def page_effect_def voice_effect_def unmounted_def)

text \<open>
  Claim C10. In every reachable state each entry of the audio cache is a non-empty
  payload. The play path and the preload path leave the cache as it is when the
  synthesis call gave the empty payload.
\<close>

theorem cache_never_holds_empty_payload:
  "(\<forall>p d. audioCache (run pts es (mount pts)) p = Some d \<longrightarrow> d \<noteq> []) \<and>
   audioCache (play_after_synth pts cl (Inr []) s) = audioCache s \<and>
   audioCache (preload_after_synth pg (Inr []) s) = audioCache s"
proof -
  have "cache_ok (run pts es (mount pts))" by (rule run_cache_ok [OF mount_cache_ok])
  then show ?thesis
    by (simp add: cache_ok_def play_after_synth_def preload_after_synth_def)
qed

theorem cache_never_holds_empty_payload_witness:
  "audioCache (run [js ''One'', js ''Two''] [SynthResponse 0 (Some ''AAAA''), SynthResponse 0 (Some [])]
      (mount [js ''One'', js ''Two''])) 1 = Some ''AAAA'' \<and> ''AAAA'' \<noteq> []"
  using cache_never_holds_empty_payload [of "[js ''One'', js ''Two'']"
      "[SynthResponse 0 (Some ''AAAA''), SynthResponse 0 (Some [])]"]
  by (simp add: ops)

section \<open>Stopping\<close>

lemma stopPlayback_idem: "stopPlayback (stopPlayback s) = stopPlayback s"
  by (simp add: stopPlayback_def Let_def split: option.splits)

lemma stopPlayback_noop:
  assumes "nodes_inv s" "audioSourceRef s = None"
  shows "stopPlayback s = s"
  using assms by (simp add: nodes_inv_def stopPlayback_def Let_def)

lemma stopPlayback_detaches:
  assumes "audioSourceRef s = Some n" "n < length (sources s)"
  shows "detached n (stopPlayback s)"
  using assms by (simp add: detached_def stopPlayback_def Let_def map_at_def stop_source_def
      split: option.splits)

lemma kept_completions:
  assumes "handlers_kept s s'" "detached n s"
  shows "detached n s' \<and> filter (\<lambda>m. m = n) (completions s') = filter (\<lambda>m. m = n) (completions s)"
proof -
  from assms(1) obtain cs where c: "completions s' = completions s @ cs"
    "\<And>m. m \<in> set cs \<Longrightarrow> \<not> detached m s" and d: "\<And>m. detached m s \<Longrightarrow> detached m s'"
    unfolding handlers_kept_def by blast
  have "n \<notin> set cs" using c(2) assms(2) by blast
  then have "filter (\<lambda>m. m = n) cs = []" by (auto simp: filter_empty_conv)
  then show ?thesis using c(1) d assms(2) by simp
qed

lemma ended_on_detached:
  assumes "detached n s"
  shows "(source_ended pts n s)\<lparr>sources := sources s\<rparr> = s"
  using assms by (simp add: detached_def source_ended_def Let_def)

text \<open>
  Claim C6. \<open>stopPlayback\<close> is idempotent; in a reachable state with no source node in
  the reference it changes nothing; and the handler of the source node it stopped never
  runs afterwards: whatever happens next, the node has no handler, no completion of it
  is recorded, and the \<open>ended\<close> event dispatched to it changes nothing but the node's
  own flags.
\<close>

theorem stop_is_idempotent_and_final:
  "stopPlayback (stopPlayback s) = stopPlayback s \<and>
   (let r = run pts es (mount pts) in
      (audioSourceRef r = None \<longrightarrow> stopPlayback r = r) \<and>
      (\<forall>n. audioSourceRef r = Some n \<longrightarrow>
         (let r' = run pts es' (stopPlayback r) in
            src_onended (sources r' ! n) = None \<and>
            filter (\<lambda>m. m = n) (completions r') = filter (\<lambda>m. m = n) (completions r) \<and>
            (source_ended pts n r')\<lparr>sources := sources r'\<rparr> = r')))"
proof -
  define r where "r = run pts es (mount pts)"
  have i: "nodes_inv r" using reachable_session [of pts es] by (simp add: r_def session_inv_def)
  have 1: "stopPlayback r = r" if "audioSourceRef r = None"
    using i that by (rule stopPlayback_noop)
  have 2: "src_onended (sources (run pts es' (stopPlayback r)) ! n) = None \<and>
            filter (\<lambda>m. m = n) (completions (run pts es' (stopPlayback r)))
              = filter (\<lambda>m. m = n) (completions r) \<and>
            (source_ended pts n (run pts es' (stopPlayback r)))
               \<lparr>sources := sources (run pts es' (stopPlayback r))\<rparr> = run pts es' (stopPlayback r)"
    if a: "audioSourceRef r = Some n" for n
  proof -
    have "n < length (sources r)" using i a by (simp add: nodes_inv_def)
    with a have d: "detached n (stopPlayback r)" by (rule stopPlayback_detaches)
    have "handlers_kept (stopPlayback r) (run pts es' (stopPlayback r))"
      using run_kept by blast
    from kept_completions [OF this d]
    have d': "detached n (run pts es' (stopPlayback r))"
      and c: "filter (\<lambda>m. m = n) (completions (run pts es' (stopPlayback r)))
              = filter (\<lambda>m. m = n) (completions r)"
      by simp_all
    show ?thesis using d' c ended_on_detached [OF d'] by (simp add: detached_def)
  qed
  show ?thesis unfolding r_def [symmetric] Let_def using 1 2 by (simp add: stopPlayback_idem)
qed


theorem stop_is_idempotent_and_final_witness:
  "audioSourceRef (run [js ''One''] [PlayPause, SynthResponse 0 (Some ''AAAA''), DecodeDone 1 1000]
      (mount [js ''One''])) = Some 0 \<and>
   completions (run [js ''One''] [SourceEnded 0]
      (stopPlayback (run [js ''One''] [PlayPause, SynthResponse 0 (Some ''AAAA''), DecodeDone 1 1000]
         (mount [js ''One''])))) = [] \<and>
   audioSourceRef (mount [js ''One'']) = None \<and> stopPlayback (mount [js ''One'']) = mount [js ''One'']"
  using stop_is_idempotent_and_final [of "mount [js ''One'']" "[js ''One'']" "[]" "[]"]
     stop_is_idempotent_and_final [of "mount [js ''One'']" "[js ''One'']"
       "[PlayPause, SynthResponse 0 (Some ''AAAA''), DecodeDone 1 1000]" "[SourceEnded 0]"]
  by (simp add: ops)

section \<open>Changing the voice\<close>







section \<open>Blank pages\<close>

lemma trim_blank: "rev (dropWhile P (rev (dropWhile P t))) = [] \<longleftrightarrow> (\<forall>c\<in>set t. P c)"
proof
  assume "rev (dropWhile P (rev (dropWhile P t))) = []"
  then have "\<forall>x\<in>set (dropWhile P t). P x" by simp
  then have "dropWhile P t = []" by (metis hd_dropWhile hd_in_set)
  then show "\<forall>c\<in>set t. P c" by (simp add: dropWhile_eq_Nil_conv)
next
  assume "\<forall>c\<in>set t. P c"
  then have "dropWhile P t = []" by (simp add: dropWhile_eq_Nil_conv)
  then show "rev (dropWhile P (rev (dropWhile P t))) = []"
    by (simp only: rev.simps dropWhile.simps)
qed

lemma js_trim_blank: "js_trim t = [] \<longleftrightarrow> (\<forall>c\<in>set t. is_ws c)"
  unfolding js_trim_def by (rule trim_blank)

lemma nonspace_matches_Nil: "nonspace_matches w t = [] \<longleftrightarrow> w = [] \<and> (\<forall>c\<in>set t. is_ws c)"
  by (induction t arbitrary: w) auto

lemma blank_no_words: "js_trim t = [] \<longleftrightarrow> nonspace_matches [] t = []"
  by (simp add: js_trim_blank nonspace_matches_Nil)

lemma play_with_audio_blank:
  assumes "page_text pts (cl_page cl) = Some t" "js_trim t = []"
  shows "play_with_audio pts cl a s = s\<lparr>isGenerating := False\<rparr>"
  using assms by (simp add: play_with_audio_def Let_def blank_no_words split: option.splits)

lemma playCurrentPage_blank:
  assumes "page_text pts (currentPage s) = Some t" "js_trim t = []" "\<not> isGenerating s"
  shows "playCurrentPage pts s = (stopPlayback s)\<lparr>isGenerating := False, highlightedWordIndex := - 1\<rparr>"
  using assms by (simp add: playCurrentPage_def Let_def text_to_fetch_def play_with_audio_blank
      split: option.splits)

lemma run_decode_ok: "[] \<notin> set (decodeCalls (run pts es (mount pts)))"
  using run_kept [of "mount pts" pts es] by (auto simp: decode_grows_def mount_decodeCalls)

text \<open>
  Claim C7. On a page whose text is empty or white space, the play button starts
  nothing: no request is sent to the synthesis service, nothing is given to the decoder,
  no task is left waiting, no source node and no timer is made, and the component is
  not playing. \<open>generateSpeech\<close> answers a blank text with the empty payload and sends no
  request. In no reachable state has the decoder been given the empty payload.
\<close>

theorem blank_page_play_is_noop:
  "page_text pts (currentPage s) = Some t \<Longrightarrow> js_trim t = [] \<Longrightarrow>
   (let s' = step pts PlayPause s in
      synthCalls s' = synthCalls s \<and> decodeCalls s' = decodeCalls s \<and> tasks s' = tasks s \<and>
      length (sources s') = length (sources s) \<and> length (timers s') = length (timers s) \<and>
      \<not> isPlaying s' \<and> (\<not> isGenerating s \<longrightarrow> \<not> isGenerating s' \<and> audioSourceRef s' = None)) \<and>
   generateSpeech pg t v s = (Some [], s) \<and>
   [] \<notin> set (decodeCalls (run pts es (mount pts)))"
proof -
  assume a: "page_text pts (currentPage s) = Some t" "js_trim t = []"
  have 1: "generateSpeech pg t v s = (Some [], s)" using a(2) by (simp add: generateSpeech_def)
  have 2: "[] \<notin> set (decodeCalls (run pts es (mount pts)))" by (rule run_decode_ok)
  have 3: "let s' = handlePlayPause pts s in
      synthCalls s' = synthCalls s \<and> decodeCalls s' = decodeCalls s \<and> tasks s' = tasks s \<and>
      length (sources s') = length (sources s) \<and> length (timers s') = length (timers s) \<and>
      \<not> isPlaying s' \<and> (\<not> isGenerating s \<longrightarrow> \<not> isGenerating s' \<and> audioSourceRef s' = None)"
  proof (cases "isPlaying s")
    case True
    then show ?thesis by (simp add: handlePlayPause_def)
  next
    case False
    show ?thesis
    proof (cases "isGenerating s")
      case True
      with False show ?thesis by (simp add: handlePlayPause_def playCurrentPage_def)
    next
      case g: False
      show ?thesis using False by (simp add: handlePlayPause_def playCurrentPage_blank [OF a g])
    qed
  qed
  show ?thesis using 1 2 3 by simp
qed

theorem blank_page_play_is_noop_witness:
  "page_text [js ''Hello world'', [0xA0, 0x2028, 0x20]]
     (currentPage (run [js ''Hello world'', [0xA0, 0x2028, 0x20]] [NextPage]
        (mount [js ''Hello world'', [0xA0, 0x2028, 0x20]]))) = Some [0xA0, 0x2028, 0x20] \<and>
   js_trim [0xA0, 0x2028, 0x20] = [] \<and>
   synthCalls (run [js ''Hello world'', [0xA0, 0x2028, 0x20]] [NextPage, PlayPause]
     (mount [js ''Hello world'', [0xA0, 0x2028, 0x20]])) = [] \<and>
   decodeCalls (run [js ''Hello world'', [0xA0, 0x2028, 0x20]] [NextPage, PlayPause]
     (mount [js ''Hello world'', [0xA0, 0x2028, 0x20]])) = []"
proof -
  have h1: "page_text [js ''Hello world'', [0xA0, 0x2028, 0x20]]
     (currentPage (run [js ''Hello world'', [0xA0, 0x2028, 0x20]] [NextPage]
        (mount [js ''Hello world'', [0xA0, 0x2028, 0x20]]))) = Some [0xA0, 0x2028, 0x20]"
    by (simp add: ops)
  have h2: "js_trim [0xA0, 0x2028, 0x20] = []" by (simp add: ops)
  show ?thesis
    using h1 h2 blank_page_play_is_noop [OF h1 h2, where pg = 1 and v = FEMALE and es = "[]"]
    by (simp add: ops)
qed

section \<open>Pressing play while generating\<close>

lemma playCurrentPage_fetch:
  assumes "\<not> isGenerating s" "page_text pts (currentPage s) = Some t" "js_trim t \<noteq> []"
    "audioCache s (currentPage s) = None"
  shows "playCurrentPage pts s =
     (stopPlayback s)\<lparr>isGenerating := True, highlightedWordIndex := - 1,
        synthCalls := synthCalls s @ [(currentPage s, t, voice s)],
        tasks := tasks s @ [PlayAwaitSynth \<lparr>cl_page = currentPage s, cl_voice = voice s,
           cl_autoPlay = autoPlay s, cl_cache = audioCache s\<rparr>]\<rparr>"
  using assms by (simp add: playCurrentPage_def Let_def text_to_fetch_def generateSpeech_def)

lemma generating_press:
  assumes "session_inv s" "isGenerating s"
  shows "step pts PlayPause s = s"
proof -
  have "audioSourceRef s = None" using assms by (simp add: session_inv_def gen_inv_def)
  then have "\<not> isPlaying s" using assms(1) by (simp add: session_inv_def nodes_inv_def)
  then show ?thesis using assms(2) by (simp add: handlePlayPause_def playCurrentPage_def)
qed

text \<open>
  Claim C8. In a reachable state that is neither playing nor generating, on a page with
  text that is not cached, the play button sends one request and sets \<open>isGenerating\<close>;
  a second press before the answer leaves the state exactly as it is, and whatever
  happens afterwards at most one source node plays. In every reachable state with
  \<open>isGenerating\<close> set the play button changes nothing.
\<close>

theorem second_press_while_generating_rejected:
  "s = run pts es (mount pts) \<Longrightarrow> \<not> isGenerating s \<Longrightarrow> \<not> isPlaying s \<Longrightarrow>
   page_text pts (currentPage s) = Some t \<Longrightarrow> js_trim t \<noteq> [] \<Longrightarrow>
   audioCache s (currentPage s) = None \<Longrightarrow>
   (let s1 = step pts PlayPause s; s2 = step pts PlayPause s1 in
      isGenerating s1 \<and> synthCalls s1 = synthCalls s @ [(currentPage s, t, voice s)] \<and>
      s2 = s1 \<and>
      length (filter src_playing (sources (run pts es' s2))) \<le> 1) \<and>
   (isGenerating (run pts es'' s) \<longrightarrow>
      step pts PlayPause (run pts es'' s) = run pts es'' s)"
proof -
  assume a: "s = run pts es (mount pts)" "\<not> isGenerating s" "\<not> isPlaying s"
    "page_text pts (currentPage s) = Some t" "js_trim t \<noteq> []"
    "audioCache s (currentPage s) = None"
  define s1 where "s1 = step pts PlayPause s"
  have i: "session_inv s" unfolding a(1) by (rule reachable_session)
  have i1: "session_inv s1" unfolding s1_def using i by (rule step_session)
  have e: "s1 = playCurrentPage pts s" using a(3) by (simp add: s1_def handlePlayPause_def)
  have g: "isGenerating s1" and c: "synthCalls s1 = synthCalls s @ [(currentPage s, t, voice s)]"
    by (simp_all add: e playCurrentPage_fetch [OF a(2,4,5,6)])
  have n: "step pts PlayPause s1 = s1" using i1 g by (rule generating_press)
  have "session_inv (run pts es' s1)" using i1 by (rule run_session)
  then have "nodes_inv (run pts es' s1)" by (simp add: session_inv_def)
  then have p: "length (filter src_playing (sources (run pts es' s1))) \<le> 1"
    by (rule playing_le_one)
  have "session_inv (run pts es'' s)" using i by (rule run_session)
  then have q: "isGenerating (run pts es'' s) \<longrightarrow>
      step pts PlayPause (run pts es'' s) = run pts es'' s"
    using generating_press by blast
  show ?thesis unfolding s1_def [symmetric] Let_def using g c n p q by simp
qed

theorem second_press_while_generating_rejected_witness:
  "tasks (run [js ''Hello world''] [PlayPause, PlayPause] (mount [js ''Hello world'']))
     = tasks (run [js ''Hello world''] [PlayPause] (mount [js ''Hello world''])) \<and>
   length (synthCalls (run [js ''Hello world''] [PlayPause, PlayPause] (mount [js ''Hello world'']))) = 1 \<and>
   map src_playing (sources (run [js ''Hello world'']
       [PlayPause, PlayPause, SynthResponse 0 (Some ''AAAA''), DecodeDone 1 2000]
       (mount [js ''Hello world'']))) = [True]"
proof -
  have h: "mount [js ''Hello world''] = run [js ''Hello world''] [] (mount [js ''Hello world''])" by simp
  have h2: "\<not> isGenerating (mount [js ''Hello world''])" "\<not> isPlaying (mount [js ''Hello world''])"
    "page_text [js ''Hello world''] (currentPage (mount [js ''Hello world''])) = Some (js ''Hello world'')"
    "js_trim (js ''Hello world'') \<noteq> []"
    "audioCache (mount [js ''Hello world'']) (currentPage (mount [js ''Hello world''])) = None"
    by (simp_all add: ops)
  show ?thesis
    using second_press_while_generating_rejected [OF h h2,
        of "[SynthResponse 0 (Some ''AAAA''), DecodeDone 1 2000]" "[PlayPause]"]
    by (simp add: ops)
qed

section \<open>Playing a page again\<close>

lemma playCurrentPage_cached:
  assumes "\<not> isGenerating s" "page_text pts (currentPage s) = Some t" "js_trim t \<noteq> []"
    "audioCache s (currentPage s) = Some d" "d \<noteq> []"
  shows "playCurrentPage pts s =
     (stopPlayback s)\<lparr>isGenerating := True, highlightedWordIndex := - 1,
        decodeCalls := decodeCalls s @ [d],
        tasks := tasks s @ [PlayAwaitDecode \<lparr>cl_page = currentPage s, cl_voice = voice s,
           cl_autoPlay = autoPlay s, cl_cache = audioCache s\<rparr> (length (nonspace_matches [] t))]\<rparr>"
  using assms
  by (simp add: playCurrentPage_def Let_def text_to_fetch_def play_with_audio_def blank_no_words)

lemma first_play_caches:
  assumes "\<not> isGenerating s" "page_text pts (currentPage s) = Some t" "js_trim t \<noteq> []"
    "audioCache s (currentPage s) = None" "d \<noteq> []"
  shows "audioCache (step pts (SynthResponse (length (tasks s)) (Some d)) (playCurrentPage pts s))
           (currentPage s) = Some d"
  by (simp add: playCurrentPage_fetch [OF assms(1-4)] synth_response_def generateSpeech_result_def
      assms(5) play_after_synth_def Let_def)

text \<open>
  Claim C4, amended. When \<open>playCurrentPage\<close> runs on a page with text that is not cached
  and is not refused, it sends one request for the page; when that request is answered with
  a payload, the payload is in the cache under the page; and after any events other
  than a change of voice, a \<open>playCurrentPage\<close> on the same page sends no request: it
  gives the cached payload to the decoder.
\<close>

theorem replay_served_from_cache:
  "\<not> isGenerating s \<Longrightarrow> page_text pts (currentPage s) = Some t \<Longrightarrow> js_trim t \<noteq> [] \<Longrightarrow>
   audioCache s (currentPage s) = None \<Longrightarrow> d \<noteq> [] \<Longrightarrow> \<forall>e\<in>set es. \<not> is_SetVoice e \<Longrightarrow>
   (let P = currentPage s;
        s1 = playCurrentPage pts s;
        s2 = step pts (SynthResponse (length (tasks s)) (Some d)) s1;
        s3 = run pts es s2
    in synthCalls s1 = synthCalls s @ [(P, t, voice s)] \<and>
       audioCache s2 P = Some d \<and>
       (currentPage s3 = P \<longrightarrow>
          synthCalls (playCurrentPage pts s3) = synthCalls s3 \<and>
          (\<not> isGenerating s3 \<longrightarrow>
             (\<exists>d'. audioCache s3 P = Some d' \<and> d' \<noteq> [] \<and>
                   decodeCalls (playCurrentPage pts s3) = decodeCalls s3 @ [d']))))"
proof -
  assume a: "\<not> isGenerating s" "page_text pts (currentPage s) = Some t" "js_trim t \<noteq> []"
    "audioCache s (currentPage s) = None" "d \<noteq> []" and v: "\<forall>e\<in>set es. \<not> is_SetVoice e"
  define s2 where "s2 = step pts (SynthResponse (length (tasks s)) (Some d)) (playCurrentPage pts s)"
  define s3 where "s3 = run pts es s2"
  have 1: "synthCalls (playCurrentPage pts s) = synthCalls s @ [(currentPage s, t, voice s)]"
    by (simp add: playCurrentPage_fetch [OF a(1-4)])
  have 2: "audioCache s2 (currentPage s) = Some d"
    unfolding s2_def using a by (rule first_play_caches)
  have "later s2 s3" unfolding s3_def using v by (rule run_later)
  then have "cache_grows s2 s3" by (simp add: later_def)
  with 2 a(5) obtain d' where c: "audioCache s3 (currentPage s) = Some d'" "d' \<noteq> []"
    unfolding cache_grows_def by metis
  have 3: "synthCalls (playCurrentPage pts s3) = synthCalls s3 \<and>
          (\<not> isGenerating s3 \<longrightarrow>
             (\<exists>d'. audioCache s3 (currentPage s) = Some d' \<and> d' \<noteq> [] \<and>
                   decodeCalls (playCurrentPage pts s3) = decodeCalls s3 @ [d']))"
    if p: "currentPage s3 = currentPage s"
  proof (cases "isGenerating s3")
    case True
    then show ?thesis by (simp add: playCurrentPage_def)
  next
    case False
    have t: "page_text pts (currentPage s3) = Some t" using a(2) p by simp
    have h: "audioCache s3 (currentPage s3) = Some d'" using c(1) p by simp
    show ?thesis using c False
      by (simp add: playCurrentPage_cached [OF False t a(3) h c(2)])
  qed
  show ?thesis unfolding Let_def s2_def [symmetric] s3_def [symmetric] using 1 2 3 by blast
qed

theorem replay_served_from_cache_witness:
  "synthCalls (run [js ''Hello world''] [PlayPause, SynthResponse 0 (Some ''AAAA''), DecodeDone 1 1000,
       SourceEnded 0, PlayPause] (mount [js ''Hello world''])) = [(0, js ''Hello world'', FEMALE)] \<and>
   decodeCalls (run [js ''Hello world''] [PlayPause, SynthResponse 0 (Some ''AAAA''), DecodeDone 1 1000,
       SourceEnded 0, PlayPause] (mount [js ''Hello world''])) = [''AAAA'', ''AAAA'']"
proof -
  have h: "\<not> isGenerating (mount [js ''Hello world''])"
    "page_text [js ''Hello world''] (currentPage (mount [js ''Hello world''])) = Some (js ''Hello world'')"
    "js_trim (js ''Hello world'') \<noteq> []"
    "audioCache (mount [js ''Hello world'']) (currentPage (mount [js ''Hello world''])) = None"
    "''AAAA'' \<noteq> []"
    "\<forall>e\<in>set [DecodeDone 1 1000, SourceEnded 0]. \<not> is_SetVoice e"
    by (simp_all add: ops is_SetVoice_def)
  show ?thesis
    using replay_served_from_cache [OF h]
    by (simp add: ops)
qed

text \<open>Claim C4 as stated fails when the first request fails: nothing is cached, and the
  second play of the same page, with no navigation and no change of voice, sends a
  second request.\<close>

theorem replay_after_failure_counterexample:
  "synthCalls (run [js ''Hello world''] [PlayPause, SynthResponse 0 None, PlayPause]
      (mount [js ''Hello world''])) = [(0, js ''Hello world'', FEMALE), (0, js ''Hello world'', FEMALE)]"
  by (simp add: ops)

section \<open>The word timer\<close>

lemma tick_inactive:
  "\<not> (t < length (timers s) \<and> tm_active (timers s ! t)) \<Longrightarrow>
   run pts (replicate k (TimerTick t)) s = s"
  by (induction k) (auto simp: timer_tick_def)

lemma ticks_advance:
  assumes "wordHighlightIntervalRef s = Some t" "t < length (timers s)"
    "tm_active (timers s ! t)" "tm_words (timers s ! t) = W"
    "highlightedWordIndex s = int i" "i < W"
  shows "highlightedWordIndex (run pts (replicate k (TimerTick t)) s) = int (min (i + k) (W - 1)) \<and>
         tm_active (timers (run pts (replicate k (TimerTick t)) s) ! t) = (i + k < W)"
  using assms
proof (induction k arbitrary: s i)
  case 0
  then show ?case by simp
next
  case (Suc k)
  show ?case
  proof (cases "i + 1 < W")
    case True
    define s' where "s' = s\<lparr>highlightedWordIndex := int (i + 1)\<rparr>"
    have e: "timer_tick t s = s'"
      using Suc.prems True by (simp add: timer_tick_def interval_callback_def Let_def s'_def)
    have "highlightedWordIndex (run pts (replicate k (TimerTick t)) s') = int (min (i + 1 + k) (W - 1)) \<and>
         tm_active (timers (run pts (replicate k (TimerTick t)) s') ! t) = (i + 1 + k < W)"
      using Suc.prems True by (intro Suc.IH) (simp_all add: s'_def)
    then show ?thesis by (simp add: e)
  next
    case False
    define s' where "s' = s\<lparr>timers := clearInterval t (timers s)\<rparr>"
    have e: "timer_tick t s = s'"
      using Suc.prems False by (simp add: timer_tick_def interval_callback_def Let_def s'_def)
    have n: "\<not> (t < length (timers s') \<and> tm_active (timers s' ! t))"
      using Suc.prems by (simp add: s'_def clearInterval_def map_at_def)
    have "run pts (replicate k (TimerTick t)) s' = s'" using n by (rule tick_inactive)
    then show ?thesis using Suc.prems False n
      by (simp add: e) (simp add: s'_def clearInterval_def map_at_def)
  qed
qed

text \<open>
  Claim C2, amended. For a page of \<open>W \<ge> 1\<close> words and a buffer of \<open>D\<close> milliseconds
  the timer is set with the interval \<open>D / W\<close> and the highlighted word is 0. After
  \<open>k\<close> ticks the highlighted word is \<open>min k (W - 1)\<close>: each of the first \<open>W - 1\<close>
  ticks advances it by one, it never passes \<open>W - 1\<close> and is never negative. The timer
  is still set after \<open>k\<close> ticks exactly when \<open>k < W\<close>: the tick number \<open>W\<close> fires with
  the index at \<open>W - 1\<close>, leaves the index and clears the timer, and no tick fires after
  it.
\<close>

theorem word_timer_ticks:
  "0 < W \<Longrightarrow>
   (let s = play_after_decode pts cl W D s0;
        t = length (timers s0);
        s' = run pts (replicate k (TimerTick t)) s
    in wordHighlightIntervalRef s = Some t \<and>
       tm_interval (timers s ! t) = D / real W \<and>
       highlightedWordIndex s = 0 \<and>
       highlightedWordIndex s' = int (min k (W - 1)) \<and>
       tm_active (timers s' ! t) = (k < W) \<and>
       (W \<le> k \<longrightarrow> step pts (TimerTick t) s' = s'))"
proof -
  assume w: "0 < W"
  define s where "s = play_after_decode pts cl W D s0"
  define t where "t = length (timers s0)"
  define s' where "s' = run pts (replicate k (TimerTick t)) s"
  have 1: "wordHighlightIntervalRef s = Some t" "t < length (timers s)"
    "tm_active (timers s ! t)" "tm_words (timers s ! t) = W"
    "highlightedWordIndex s = int 0" "tm_interval (timers s ! t) = D / real W"
    by (simp_all add: s_def t_def play_after_decode_def Let_def)
  have 2: "highlightedWordIndex s' = int (min (0 + k) (W - 1)) \<and>
         tm_active (timers s' ! t) = (0 + k < W)"
    unfolding s'_def using 1(1-5) w by (rule ticks_advance)
  have 3: "step pts (TimerTick t) s' = s'" if "W \<le> k"
    using 2 that by (simp add: timer_tick_def)
  show ?thesis unfolding Let_def s_def [symmetric] t_def [symmetric] s'_def [symmetric]
    using 1 2 3 by simp
qed

theorem word_timer_ticks_witness:
  "(0::nat) < 2 \<and>
   highlightedWordIndex (run [js ''Hello world''] (replicate 5 (TimerTick 0))
      (play_after_decode [js ''Hello world'']
         \<lparr>cl_page = 0, cl_voice = FEMALE, cl_autoPlay = False, cl_cache = Map.empty\<rparr> 2 1000
         (mount [js ''Hello world'']))) = 1"
proof -
  have h: "(0::nat) < 2" by simp
  show ?thesis
    using h word_timer_ticks [OF h, of "[js ''Hello world'']"
        "\<lparr>cl_page = 0, cl_voice = FEMALE, cl_autoPlay = False, cl_cache = Map.empty\<rparr>" 1000
        "mount [js ''Hello world'']" 5]
    by (simp add: Let_def mount_def unmounted_def page_effect_def voice_effect_def stopPlayback_def
        preloadPage_def)
qed

text \<open>Claim C2 as stated fails: with two words, after one tick the index is 1, the
  last word, and the timer is still set; the next tick fires and clears it.\<close>

theorem tick_after_last_word_counterexample:
  "highlightedWordIndex (run [js ''Hello world'']
      [PlayPause, SynthResponse 0 (Some ''AAAA''), DecodeDone 1 1000, TimerTick 0]
      (mount [js ''Hello world''])) = 1 \<and>
   map tm_active (timers (run [js ''Hello world'']
      [PlayPause, SynthResponse 0 (Some ''AAAA''), DecodeDone 1 1000, TimerTick 0]
      (mount [js ''Hello world'']))) = [True] \<and>
   map tm_active (timers (run [js ''Hello world'']
      [PlayPause, SynthResponse 0 (Some ''AAAA''), DecodeDone 1 1000, TimerTick 0, TimerTick 0]
      (mount [js ''Hello world'']))) = [False]"
  by (simp add: ops)

section \<open>Auto-play over an empty page\<close>

lemma after_first_page:
  assumes "d \<noteq> []"
  shows "run three_pages [ToggleAutoPlay, SynthResponse 0 (Some d), DecodeDone 1 D, SourceEnded 0]
           (mount three_pages) =
         \<lparr>currentPage = 1, voice = FEMALE, isPlaying = False, isGenerating = False,
          highlightedWordIndex = - 1, audioCache = [0 \<mapsto> d], autoPlay = True,
          audioSourceRef = None, wordHighlightIntervalRef = None, preloadingPageRef = None,
          isInitialMountRef = False,
          sources = [\<lparr>src_onended = None, src_playing = False, src_connected = False,
                      src_ended = True\<rparr>],
          timers = [\<lparr>tm_words = 2, tm_interval = D / 2, tm_active = False\<rparr>],
          tasks = [Done, Done], synthCalls = [(0, js ''Hello world'', FEMALE)],
          decodeCalls = [d], completions = [0], alerts = 0\<rparr>"
  using assms by (simp add: three_pages_def ops)

lemma quiescent_step:
  assumes "list_all is_done (tasks s)" "list_all src_ended (sources s)"
    "list_all (\<lambda>t. \<not> tm_active t) (timers s)" "is_internal e"
  shows "step pts e s = s"
proof (cases e)
  case (SynthResponse i r)
  then show ?thesis using assms(1)
    by (auto simp: synth_response_def list_all_length is_done_def split: task.splits)
next
  case (DecodeDone i D)
  then show ?thesis using assms(1)
    by (auto simp: decode_done_def list_all_length is_done_def split: task.splits)
next
  case (DecodeFail i)
  then show ?thesis using assms(1)
    by (auto simp: decode_fail_def list_all_length is_done_def split: task.splits)
next
  case (SourceEnded n)
  then show ?thesis using assms(2) by (auto simp: source_ended_def list_all_length)
next
  case (TimerTick t)
  then show ?thesis using assms(3) by (auto simp: timer_tick_def list_all_length)
qed (use assms(4) in \<open>simp_all add: is_internal_def\<close>)

lemma quiescent_run:
  assumes "list_all is_done (tasks s)" "list_all src_ended (sources s)"
    "list_all (\<lambda>t. \<not> tm_active t) (timers s)" "\<forall>e\<in>set es. is_internal e"
  shows "run pts es s = s"
  using assms(4)
proof (induction es)
  case Nil
  then show ?case by simp
next
  case (Cons e es)
  then show ?case using quiescent_step [OF assms(1-3), of e pts] by simp
qed

text \<open>
  Claim C3, amended. With the pages "Hello world", "", "Third page here" and auto-play
  switched on at page 0, one request is sent for "Hello world"; when its playback ends
  the component goes to page 1, sends no request for it and stops there: nothing is
  playing or generating, and no event of the browser or the collaborators changes the
  state. When the user then goes to the next page, exactly one request is sent for
  "Third page here".
\<close>

theorem autoplay_stops_at_empty_page:
  "d \<noteq> [] \<Longrightarrow>
   (let s0 = run three_pages [ToggleAutoPlay, SynthResponse 0 (Some d), DecodeDone 1 D]
               (mount three_pages);
        s = step three_pages (SourceEnded 0) s0;
        s' = step three_pages NextPage s
    in currentPage s0 = 0 \<and> isPlaying s0 \<and> synthCalls s0 = [(0, js ''Hello world'', FEMALE)] \<and>
       currentPage s = 1 \<and> \<not> isPlaying s \<and> \<not> isGenerating s \<and>
       synthCalls s = [(0, js ''Hello world'', FEMALE)] \<and>
       ((\<forall>e\<in>set es. is_internal e) \<longrightarrow> run three_pages es s = s) \<and>
       currentPage s' = 2 \<and>
       synthCalls s' = [(0, js ''Hello world'', FEMALE), (2, js ''Third page here'', FEMALE)])"
proof -
  assume d: "d \<noteq> []"
  define s0 where "s0 = run three_pages [ToggleAutoPlay, SynthResponse 0 (Some d), DecodeDone 1 D]
               (mount three_pages)"
  define s where "s = step three_pages (SourceEnded 0) s0"
  have e: "s = run three_pages [ToggleAutoPlay, SynthResponse 0 (Some d), DecodeDone 1 D, SourceEnded 0]
           (mount three_pages)"
    by (simp add: s_def s0_def)
  note v = e [unfolded after_first_page [OF d]]
  have 0: "currentPage s0 = 0 \<and> isPlaying s0 \<and> synthCalls s0 = [(0, js ''Hello world'', FEMALE)]"
    using d by (simp add: s0_def three_pages_def ops)
  have 1: "currentPage s = 1 \<and> \<not> isPlaying s \<and> \<not> isGenerating s \<and>
       synthCalls s = [(0, js ''Hello world'', FEMALE)]"
    by (simp add: v)
  have 2: "run three_pages es s = s" if "\<forall>e\<in>set es. is_internal e"
    using _ _ _ that by (rule quiescent_run) (simp_all add: v is_done_def)
  have 3: "currentPage (step three_pages NextPage s) = 2 \<and>
       synthCalls (step three_pages NextPage s)
         = [(0, js ''Hello world'', FEMALE), (2, js ''Third page here'', FEMALE)]"
    by (simp add: v three_pages_def ops)
  show ?thesis unfolding Let_def s0_def [symmetric] s_def [symmetric] using 0 1 2 3 by blast
qed

theorem autoplay_stops_at_empty_page_witness:
  "''AAAA'' \<noteq> [] \<and>
   currentPage (run three_pages [ToggleAutoPlay, SynthResponse 0 (Some ''AAAA''), DecodeDone 1 1000,
      SourceEnded 0, TimerTick 0, SourceEnded 0, NextPage] (mount three_pages)) = 2"
proof -
  have h: "''AAAA'' \<noteq> []" by simp
  have i: "\<forall>e\<in>set [TimerTick 0, SourceEnded 0]. is_internal e" by (simp add: is_internal_def)
  show ?thesis
    using h i autoplay_stops_at_empty_page [OF h, of 1000 "[TimerTick 0, SourceEnded 0]"]
    by (simp add: Let_def)
qed

text \<open>Claim C3 as stated fails: when the playback of page 0 has ended the component is
  on page 1 with every task finished, the source node ended and the timer cleared, and
  the only request sent is the one for "Hello world".\<close>

theorem autoplay_stuck_counterexample:
  "currentPage (run three_pages [ToggleAutoPlay, SynthResponse 0 (Some ''AAAA''), DecodeDone 1 1000,
      SourceEnded 0] (mount three_pages)) = 1 \<and>
   tasks (run three_pages [ToggleAutoPlay, SynthResponse 0 (Some ''AAAA''), DecodeDone 1 1000,
      SourceEnded 0] (mount three_pages)) = [Done, Done] \<and>
   map src_ended (sources (run three_pages [ToggleAutoPlay, SynthResponse 0 (Some ''AAAA''),
      DecodeDone 1 1000, SourceEnded 0] (mount three_pages))) = [True] \<and>
   map tm_active (timers (run three_pages [ToggleAutoPlay, SynthResponse 0 (Some ''AAAA''),
      DecodeDone 1 1000, SourceEnded 0] (mount three_pages))) = [False] \<and>
   synthCalls (run three_pages [ToggleAutoPlay, SynthResponse 0 (Some ''AAAA''), DecodeDone 1 1000,
      SourceEnded 0] (mount three_pages)) = [(0, js ''Hello world'', FEMALE)]"
  by (simp add: three_pages_def ops)

section \<open>The page index\<close>

lemma playCurrentPage_page [simp]: "currentPage (playCurrentPage pts s) = currentPage s"
  by (simp add: playCurrentPage_def Let_def generateSpeech_def split: option.splits)

lemma page_effect_page [simp]: "currentPage (page_effect pts s) = currentPage s"
  by (simp add: page_effect_def Let_def)

lemma buttons_in_bounds:
  assumes "0 \<le> currentPage s" "currentPage s < int (length pts)"
  shows "0 \<le> currentPage (goToNextPage pts s) \<and> currentPage (goToNextPage pts s) < int (length pts) \<and>
         0 \<le> currentPage (goToPrevPage pts s) \<and> currentPage (goToPrevPage pts s) < int (length pts)"
  using assms by (auto simp: goToNextPage_def goToPrevPage_def)

text \<open>
  Claim C9 fails on the code. The guard of the \<open>onended\<close> handler tests the page its
  closure captured, the update adds one to the latest page. With two pages, auto-play
  switched on at page 0 and the next-page button pressed while the request for page 0 is
  under way, the playback of page 0 ends on page 1 and the handler moves the component
  to page 2, past the last page.
\<close>

theorem auto_advance_passes_last_page:
  "currentPage (run [js ''One'', js ''Two'']
      [ToggleAutoPlay, NextPage, SynthResponse 1 (Some ''AAAA''), DecodeDone 2 1000, SourceEnded 0]
      (mount [js ''One'', js ''Two''])) = 2 \<and>
   int (length [js ''One'', js ''Two'']) - 1 = 1"
  by (simp add: ops)

end
